theory Spec2Isabelle
  imports Main "HOL-Library.Sublist"
begin

section \<open>Go strings and the library functions the program calls\<close>

text \<open>
  A Go \<^verbatim>\<open>string\<close> and a \<^verbatim>\<open>[]byte\<close> are both sequences of bytes; the conversions
  between them copy and change nothing. Both are modelled as \<^typ>\<open>string\<close>, a list of
  8-bit characters.
\<close>

abbreviation NL :: char where
  "NL \<equiv> CHR 0x0A"

text \<open>
  \<^verbatim>\<open>strings.Split(s, sep)\<close> with a one-byte separator, the only way the program calls it
  (\<^verbatim>\<open>"\n"\<close>): the pieces between the occurrences of the separator, so one piece more
  than there are separators, and \<^verbatim>\<open>[""]\<close> for the empty string.
\<close>

fun Split :: "string \<Rightarrow> char \<Rightarrow> string list" where
  "Split [] sep = [[]]"
| "Split (c # s) sep =
     (if c = sep then [] # Split s sep
      else (case Split s sep of
              [] \<Rightarrow> [[c]]
            | piece # pieces \<Rightarrow> (c # piece) # pieces))"

text \<open>\<^verbatim>\<open>strings.Join(elems, sep)\<close>; the empty string for no element.\<close>

fun Join :: "string list \<Rightarrow> string \<Rightarrow> string" where
  "Join [] sep = []"
| "Join [e] sep = e"
| "Join (e # f # elems) sep = e @ sep @ Join (f # elems) sep"

text \<open>
  \<^verbatim>\<open>strings.HasSuffix(s, suffix)\<close> is
  \<^verbatim>\<open>len(s) >= len(suffix) && s[len(s)-len(suffix):] == suffix\<close>, and
  \<^verbatim>\<open>strings.HasPrefix\<close> is its mirror image.
\<close>

definition HasSuffix :: "string \<Rightarrow> string \<Rightarrow> bool" where
  "HasSuffix s sfx \<longleftrightarrow>
     length s \<ge> length sfx \<and> drop (length s - length sfx) s = sfx"

definition HasPrefix :: "string \<Rightarrow> string \<Rightarrow> bool" where
  "HasPrefix s pfx \<longleftrightarrow> length s \<ge> length pfx \<and> take (length pfx) s = pfx"

text \<open>
  \<^verbatim>\<open>strings.TrimSpace(s)\<close> removes the leading and the trailing white space of \<^verbatim>\<open>s\<close>, as
  \<^verbatim>\<open>unicode.IsSpace\<close> defines it on the code points that \<^verbatim>\<open>s\<close> holds in UTF-8: the six
  ASCII characters tab, line feed, vertical tab, form feed, carriage return and space, and
  U+0085, U+00A0, U+1680, U+2000 to U+200A, U+2028, U+2029, U+202F, U+205F and U+3000.
  The decoder accepts only the shortest encoding of a code point, and a byte that starts no
  valid encoding counts as the code point U+FFFD, which is no white space. So \<^verbatim>\<open>s\<close> starts
  (ends) with a white-space code point exactly when one of the byte sequences below is a
  prefix (suffix) of it.
\<close>

definition spaceRunes :: "string list" where
  "spaceRunes =
     [[CHR 0x09], [CHR 0x0A], [CHR 0x0B], [CHR 0x0C], [CHR 0x0D], [CHR 0x20],
      [CHR 0xC2, CHR 0x85], [CHR 0xC2, CHR 0xA0],
      [CHR 0xE1, CHR 0x9A, CHR 0x80],
      [CHR 0xE2, CHR 0x80, CHR 0x80], [CHR 0xE2, CHR 0x80, CHR 0x81],
      [CHR 0xE2, CHR 0x80, CHR 0x82], [CHR 0xE2, CHR 0x80, CHR 0x83],
      [CHR 0xE2, CHR 0x80, CHR 0x84], [CHR 0xE2, CHR 0x80, CHR 0x85],
      [CHR 0xE2, CHR 0x80, CHR 0x86], [CHR 0xE2, CHR 0x80, CHR 0x87],
      [CHR 0xE2, CHR 0x80, CHR 0x88], [CHR 0xE2, CHR 0x80, CHR 0x89],
      [CHR 0xE2, CHR 0x80, CHR 0x8A],
      [CHR 0xE2, CHR 0x80, CHR 0xA8], [CHR 0xE2, CHR 0x80, CHR 0xA9],
      [CHR 0xE2, CHR 0x80, CHR 0xAF],
      [CHR 0xE2, CHR 0x81, CHR 0x9F],
      [CHR 0xE3, CHR 0x80, CHR 0x80]]"

text \<open>
  The number of bytes of the white-space code point that \<^verbatim>\<open>s\<close> starts with (ends with),
  and 0 when it starts (ends) with none.
\<close>

definition leadingSpace :: "string \<Rightarrow> nat" where
  "leadingSpace s =
     (case find (\<lambda>r. HasPrefix s r) spaceRunes of None \<Rightarrow> 0 | Some r \<Rightarrow> length r)"

definition trailingSpace :: "string \<Rightarrow> nat" where
  "trailingSpace s =
     (case find (\<lambda>r. HasSuffix s r) spaceRunes of None \<Rightarrow> 0 | Some r \<Rightarrow> length r)"

text \<open>
  \<^verbatim>\<open>strings.TrimLeftFunc(s, unicode.IsSpace)\<close> and \<^verbatim>\<open>strings.TrimRightFunc(s, unicode.IsSpace)\<close>:
  white-space code points are dropped one at a time until the string starts (ends) with
  none. Every step shortens the string, so both loops end.
\<close>

function TrimLeft :: "string \<Rightarrow> string" where
  "TrimLeft s = (if leadingSpace s = 0 then s else TrimLeft (drop (leadingSpace s) s))"
  by pat_completeness auto
termination
proof (relation "measure length")
  fix s
  assume pos: "leadingSpace s \<noteq> 0"
  then obtain r where "find (\<lambda>r. HasPrefix s r) spaceRunes = Some r"
    and r: "leadingSpace s = length r"
    by (auto simp: leadingSpace_def split: option.splits)
  then have "HasPrefix s r"
    by (auto simp: find_Some_iff)
  with r have "leadingSpace s \<le> length s"
    by (simp add: HasPrefix_def)
  with pos show "(drop (leadingSpace s) s, s) \<in> measure length"
    by simp
qed simp

function TrimRight :: "string \<Rightarrow> string" where
  "TrimRight s =
     (if trailingSpace s = 0 then s else TrimRight (take (length s - trailingSpace s) s))"
  by pat_completeness auto
termination
proof (relation "measure length")
  fix s
  assume pos: "trailingSpace s \<noteq> 0"
  then obtain r where "find (\<lambda>r. HasSuffix s r) spaceRunes = Some r"
    and r: "trailingSpace s = length r"
    by (auto simp: trailingSpace_def split: option.splits)
  then have "HasSuffix s r"
    by (auto simp: find_Some_iff)
  with r have "trailingSpace s \<le> length s"
    by (simp add: HasSuffix_def)
  with pos show "(take (length s - trailingSpace s) s, s) \<in> measure length"
    by simp
qed simp

declare TrimLeft.simps [simp del] TrimRight.simps [simp del]

definition TrimSpace :: "string \<Rightarrow> string" where
  "TrimSpace s = TrimRight (TrimLeft s)"

text \<open>
  \<^verbatim>\<open>strings.ToLower(s)\<close>. On a string of ASCII bytes it adds \<^verbatim>\<open>'a' - 'A'\<close> to every byte
  from \<^verbatim>\<open>'A'\<close> to \<^verbatim>\<open>'Z'\<close>. On any other string it is
  \<^verbatim>\<open>strings.Map(unicode.ToLower, s)\<close>, which depends on the case tables of the Unicode
  standard; that function is the parameter \<^verbatim>\<open>mapLower\<close> here and in every function that
  reaches \<^verbatim>\<open>ToLower\<close>, and what is proved holds for every such function.
\<close>

definition asciiLower :: "char \<Rightarrow> char" where
  "asciiLower c =
     (if (0x41::nat) \<le> of_char c \<and> of_char c \<le> (0x5A::nat)
      then char_of (of_char c + (0x20::nat)) else c)"

definition ToLower :: "(string \<Rightarrow> string) \<Rightarrow> string \<Rightarrow> string" where
  "ToLower mapLower s =
     (if list_all (\<lambda>c. of_char c < (0x80::nat)) s then map asciiLower s else mapLower s)"

text \<open>The verb \<^verbatim>\<open>%d\<close> of \<^verbatim>\<open>fmt\<close>: an integer in decimal.\<close>

function decimal :: "nat \<Rightarrow> string" where
  "decimal n =
     (if n < 10 then [char_of (0x30 + n)]
      else decimal (n div 10) @ [char_of (0x30 + n mod 10)])"
  by pat_completeness auto
termination
  by (relation "measure id") auto

declare decimal.simps [simp del]

definition Itoa :: "int \<Rightarrow> string" where
  "Itoa i = (if i < 0 then ''-'' @ decimal (nat (- i)) else decimal (nat i))"

text \<open>
  \<^verbatim>\<open>filepath.Clean(path)\<close> on Unix. Its loop reads the path element by element: an empty
  element and \<^verbatim>\<open>.\<close> are dropped; \<^verbatim>\<open>..\<close> removes the last element written, when that is
  a name, is written itself when the path is not rooted, and is dropped at the root; a
  name is written. \<^verbatim>\<open>out\<close> holds the elements written so far. The result is the slash
  of a rooted path and the elements with slashes between them, or \<^verbatim>\<open>.\<close> when that is
  empty.
\<close>

fun cleanLoop :: "bool \<Rightarrow> string list \<Rightarrow> string list \<Rightarrow> string list" where
  "cleanLoop rooted [] out = out"
| "cleanLoop rooted (e # es) out =
     (if e = [] \<or> e = ''.'' then cleanLoop rooted es out
      else if e = ''..''
      then (if out \<noteq> [] \<and> last out \<noteq> ''..'' then cleanLoop rooted es (butlast out)
            else if \<not> rooted then cleanLoop rooted es (out @ [''..''])
            else cleanLoop rooted es out)
      else cleanLoop rooted es (out @ [e]))"

definition filepath_Clean :: "string \<Rightarrow> string" where
  "filepath_Clean path =
     (if path = [] then ''.''
      else (let rooted = (hd path = CHR ''/'');
                out = cleanLoop rooted (Split path (CHR ''/'')) [];
                cleaned = (if rooted then ''/'' else []) @ Join out ''/''
            in if cleaned = [] then ''.'' else cleaned))"

text \<open>
  \<^verbatim>\<open>filepath.Join(elem...)\<close>: the elements from the first non-empty one on, joined with
  slashes and cleaned; the empty string when every element is empty.
\<close>

definition filepath_Join :: "string list \<Rightarrow> string" where
  "filepath_Join elem =
     (case dropWhile (\<lambda>e. e = []) elem of
        [] \<Rightarrow> []
      | e # es \<Rightarrow> filepath_Clean (Join (e # es) ''/''))"

section \<open>Errors, the file system, the streams\<close>

text \<open>
  A Go \<^verbatim>\<open>error\<close> is \<^verbatim>\<open>io.EOF\<close>, the \<^verbatim>\<open>*fs.PathError\<close> of a failed system call (the
  operation, the path and the cause) or an error made from a message, as \<^verbatim>\<open>fmt.Errorf\<close>
  and \<^verbatim>\<open>errors.New\<close> make them. \<^verbatim>\<open>Error\<close> is the method of that name, and
  \<^verbatim>\<open>IsNotExist\<close> is \<^verbatim>\<open>os.IsNotExist\<close>. A function that returns \<^verbatim>\<open>error\<close> returns
  \<^typ>\<open>'e option\<close> here, \<^term>\<open>None\<close> for \<^verbatim>\<open>nil\<close>.
\<close>

datatype errno = ENOENT | EEXIST | EISDIR | ENOTDIR | Errno string

datatype error = EOF | PathError string string errno | Errorf string

fun errno_Error :: "errno \<Rightarrow> string" where
  "errno_Error ENOENT = ''no such file or directory''"
| "errno_Error EEXIST = ''file exists''"
| "errno_Error EISDIR = ''is a directory''"
| "errno_Error ENOTDIR = ''not a directory''"
| "errno_Error (Errno msg) = msg"

fun Error :: "error \<Rightarrow> string" where
  "Error EOF = ''EOF''"
| "Error (PathError op path e) = op @ '' '' @ path @ '': '' @ errno_Error e"
| "Error (Errorf msg) = msg"

fun IsNotExist :: "error \<Rightarrow> bool" where
  "IsNotExist (PathError op path e) = (e = ENOENT)"
| "IsNotExist err = False"

text \<open>
  The file system maps a path to a regular file (permission bits and content) or to a
  directory (permission bits). A system call can also fail for a reason that the map does
  not show (permissions, a full disk, an I/O error, a parent directory that is missing:
  the map is flat): \<^verbatim>\<open>fault\<close> gives the cause for every call that fails so, and a
  failed call changes nothing. The permission bits are the ones
  the program passes, \<^verbatim>\<open>0600\<close> (384) and \<^verbatim>\<open>0700\<close> (448), neither of which the usual
  \<^verbatim>\<open>umask\<close> reduces.
\<close>

datatype node = File nat string | Dir nat

datatype syscall =
    SysStat string | SysMkdir string | SysOpen string | SysFstat string
  | SysWrite string string | SysRead string

text \<open>
  Standard input behind its \<^verbatim>\<open>bufio.Reader\<close> (\<^verbatim>\<open>stdinReader\<close>): the bytes not yet
  consumed, and the error that a read reports once they are used up, \<^verbatim>\<open>io.EOF\<close> at the
  end of the input or the failure of the stream.
\<close>

record reader =
  pending :: string
  ending :: error

text \<open>An \<^verbatim>\<open>*http.Response\<close>: the status code and what \<^verbatim>\<open>io.ReadAll\<close> gets from the body.\<close>

record response =
  StatusCode :: int
  Body :: "error + string"

text \<open>
  Everything the program reads or changes: the bytes written to \<^verbatim>\<open>stdout\<close>, standard
  input, the result of \<^verbatim>\<open>userCurrent()\<close> (the home directory of the user, or an error),
  the result of \<^verbatim>\<open>httpGet(url)\<close> for every URL, the file system and its faults.
\<close>

record world =
  stdout :: string
  stdin :: reader
  userCurrent :: "error + string"
  httpGet :: "string \<Rightarrow> error + response"
  fs :: "string \<rightharpoonup> node"
  fault :: "syscall \<Rightarrow> errno option"

definition os_Stat :: "world \<Rightarrow> string \<Rightarrow> error + node" where
  "os_Stat w name =
     (case fault w (SysStat name) of
        Some e \<Rightarrow> Inl (PathError ''stat'' name e)
      | None \<Rightarrow>
          (case fs w name of
             None \<Rightarrow> Inl (PathError ''stat'' name ENOENT)
           | Some n \<Rightarrow> Inr n))"

text \<open>The test \<^verbatim>\<open>if _, err := os.Stat(name); os.IsNotExist(err)\<close>.\<close>

definition notExist :: "world \<Rightarrow> string \<Rightarrow> bool" where
  "notExist w name = (case os_Stat w name of Inl err \<Rightarrow> IsNotExist err | Inr n \<Rightarrow> False)"

definition os_Mkdir :: "world \<Rightarrow> string \<Rightarrow> nat \<Rightarrow> error option \<times> world" where
  "os_Mkdir w name perm =
     (case fault w (SysMkdir name) of
        Some e \<Rightarrow> (Some (PathError ''mkdir'' name e), w)
      | None \<Rightarrow>
          (case fs w name of
             Some n \<Rightarrow> (Some (PathError ''mkdir'' name EEXIST), w)
           | None \<Rightarrow> (None, w\<lparr>fs := (fs w)(name \<mapsto> Dir perm)\<rparr>)))"

text \<open>
  \<^verbatim>\<open>os.OpenFile(name, flag, perm)\<close> for writing; the two booleans are the flags
  \<^verbatim>\<open>O_CREATE\<close> and \<^verbatim>\<open>O_TRUNC\<close>. The open file is known by its path: the program has one
  file open at a time.
\<close>

definition os_OpenFile ::
  "world \<Rightarrow> string \<Rightarrow> bool \<Rightarrow> bool \<Rightarrow> nat \<Rightarrow> error option \<times> world" where
  "os_OpenFile w name O_CREATE O_TRUNC perm =
     (case fault w (SysOpen name) of
        Some e \<Rightarrow> (Some (PathError ''open'' name e), w)
      | None \<Rightarrow>
          (case fs w name of
             None \<Rightarrow>
               if O_CREATE then (None, w\<lparr>fs := (fs w)(name \<mapsto> File perm [])\<rparr>)
               else (Some (PathError ''open'' name ENOENT), w)
           | Some (Dir m) \<Rightarrow> (Some (PathError ''open'' name EISDIR), w)
           | Some (File m content) \<Rightarrow>
               if O_TRUNC then (None, w\<lparr>fs := (fs w)(name \<mapsto> File m [])\<rparr>)
               else (None, w)))"

text \<open>\<^verbatim>\<open>file.Stat()\<close>, of which the program reads the size.\<close>

definition file_Stat :: "world \<Rightarrow> string \<Rightarrow> error + nat" where
  "file_Stat w name =
     (case fault w (SysFstat name) of
        Some e \<Rightarrow> Inl (PathError ''stat'' name e)
      | None \<Rightarrow>
          (case fs w name of
             Some (File m content) \<Rightarrow> Inr (length content)
           | Some (Dir m) \<Rightarrow> Inl (PathError ''stat'' name EISDIR)
           | None \<Rightarrow> Inl (PathError ''stat'' name ENOENT)))"

text \<open>
  \<^verbatim>\<open>file.Write(b)\<close> and \<^verbatim>\<open>file.WriteString(s)\<close> on a file opened with \<^verbatim>\<open>O_APPEND\<close>, or
  just truncated: the bytes go to the end of the file.
\<close>

definition file_Write :: "world \<Rightarrow> string \<Rightarrow> string \<Rightarrow> error option \<times> world" where
  "file_Write w name b =
     (case fault w (SysWrite name b) of
        Some e \<Rightarrow> (Some (PathError ''write'' name e), w)
      | None \<Rightarrow>
          (case fs w name of
             Some (File m content) \<Rightarrow>
               (None, w\<lparr>fs := (fs w)(name \<mapsto> File m (content @ b))\<rparr>)
           | Some (Dir m) \<Rightarrow> (Some (PathError ''write'' name EISDIR), w)
           | None \<Rightarrow> (Some (PathError ''write'' name ENOENT), w)))"

text \<open>
  \<^verbatim>\<open>os.WriteFile(name, data, perm)\<close> opens with \<^verbatim>\<open>O_WRONLY|O_CREATE|O_TRUNC\<close> and writes.
\<close>

definition os_WriteFile :: "world \<Rightarrow> string \<Rightarrow> string \<Rightarrow> nat \<Rightarrow> error option \<times> world" where
  "os_WriteFile w name data perm =
     (case os_OpenFile w name True True perm of
        (Some err, w1) \<Rightarrow> (Some err, w1)
      | (None, w1) \<Rightarrow> file_Write w1 name data)"

definition os_ReadFile :: "world \<Rightarrow> string \<Rightarrow> error + string" where
  "os_ReadFile w name =
     (case fault w (SysOpen name) of
        Some e \<Rightarrow> Inl (PathError ''open'' name e)
      | None \<Rightarrow>
          (case fs w name of
             None \<Rightarrow> Inl (PathError ''open'' name ENOENT)
           | Some (Dir m) \<Rightarrow> Inl (PathError ''read'' name EISDIR)
           | Some (File m content) \<Rightarrow>
               (case fault w (SysRead name) of
                  Some e \<Rightarrow> Inl (PathError ''read'' name e)
                | None \<Rightarrow> Inr content)))"

text \<open>\<^verbatim>\<open>fmt.Fprint(stdout, s)\<close> and \<^verbatim>\<open>fmt.Fprintln(stdout, s)\<close>; their results are ignored.\<close>

definition Fprint :: "world \<Rightarrow> string \<Rightarrow> world" where
  "Fprint w s = w\<lparr>stdout := stdout w @ s\<rparr>"

definition Fprintln :: "world \<Rightarrow> string \<Rightarrow> world" where
  "Fprintln w s = w\<lparr>stdout := stdout w @ s @ [NL]\<rparr>"

text \<open>
  \<^verbatim>\<open>reader.ReadString(delim)\<close>: the bytes up to and including the first delimiter, with no
  error; or, when no delimiter comes, all the bytes that are left, with the error of the
  stream.
\<close>

definition ReadString :: "reader \<Rightarrow> char \<Rightarrow> (string \<times> error option) \<times> reader" where
  "ReadString b delim =
     (if delim \<in> set (pending b)
      then ((takeWhile (\<lambda>c. c \<noteq> delim) (pending b) @ [delim], None),
            b\<lparr>pending := tl (dropWhile (\<lambda>c. c \<noteq> delim) (pending b))\<rparr>)
      else ((pending b, Some (ending b)), b\<lparr>pending := []\<rparr>))"

section \<open>The program (doorman.go)\<close>

text \<open>
  Each function of the program is a function of the same name here, from the world before
  the call to the result and the world after it. A function that returns \<^verbatim>\<open>(bool, error)\<close>
  returns a sum: callers read the boolean only when the error is \<^verbatim>\<open>nil\<close>.
\<close>

abbreviation mode_0600 :: nat where
  "mode_0600 \<equiv> 384"

abbreviation mode_0700 :: nat where
  "mode_0700 \<equiv> 448"

text \<open>
  The loop of \<^verbatim>\<open>appendUsernameToKeys\<close> (lines 228 to 234): \<^verbatim>\<open>result\<close> starts as the nil
  slice and grows at its end.
\<close>

fun appendLoop :: "string list \<Rightarrow> string \<Rightarrow> string list \<Rightarrow> string list" where
  "appendLoop [] username result = result"
| "appendLoop (line # lines) username result =
     (let line = TrimSpace line
      in if length line > 0
         then appendLoop lines username (result @ [line @ '' '' @ username])
         else appendLoop lines username result)"

definition appendUsernameToKeys :: "string \<Rightarrow> string \<Rightarrow> string" where
  "appendUsernameToKeys keys username =
     (let lines = Split (TrimSpace keys) NL
      in Join (appendLoop lines username []) [NL])"

text \<open>
  The loop of \<^verbatim>\<open>removeKeysByUsername\<close> (lines 245 to 250): \<^verbatim>\<open>newLines\<close> starts as the nil
  slice and grows at its end by every line that does not have the suffix.
\<close>

fun removeLoop :: "string list \<Rightarrow> string \<Rightarrow> string list \<Rightarrow> string list" where
  "removeLoop [] sfx newLines = newLines"
| "removeLoop (line # lines) sfx newLines =
     (if \<not> HasSuffix line sfx
      then removeLoop lines sfx (newLines @ [line])
      else removeLoop lines sfx newLines)"

definition removeKeysByUsername :: "string \<Rightarrow> string \<Rightarrow> string" where
  "removeKeysByUsername keys username =
     (let lines = Split keys NL;
          sfx = '' '' @ username
      in Join (removeLoop lines sfx []) [NL])"

definition getAuthorizedKeysPath :: "world \<Rightarrow> error + string" where
  "getAuthorizedKeysPath w =
     (case userCurrent w of
        Inl err \<Rightarrow> Inl err
      | Inr HomeDir \<Rightarrow> Inr (filepath_Join [HomeDir, ''.ssh'', ''authorized_keys'']))"

definition ensureSSHDir :: "world \<Rightarrow> error option \<times> world" where
  "ensureSSHDir w =
     (case userCurrent w of
        Inl err \<Rightarrow> (Some err, w)
      | Inr HomeDir \<Rightarrow>
          (let sshDir = filepath_Join [HomeDir, ''.ssh'']
           in if notExist w sshDir then os_Mkdir w sshDir mode_0700 else (None, w)))"

definition promptConfirmation ::
  "(string \<Rightarrow> string) \<Rightarrow> string \<Rightarrow> world \<Rightarrow> (error + bool) \<times> world" where
  "promptConfirmation mapLower prompt w =
     (let w1 = Fprint w prompt;
          ((line, err), b) = ReadString (stdin w1) NL;
          w2 = w1\<lparr>stdin := b\<rparr>;
          response = ToLower mapLower (TrimSpace line)
      in case err of
           Some e \<Rightarrow> if e \<noteq> EOF then (Inl e, w2) else (Inr (response = ''yes''), w2)
         | None \<Rightarrow> (Inr (response = ''yes''), w2))"

text \<open>
  \<^verbatim>\<open>confirmAndAddKeys\<close> in three parts. \<^verbatim>\<open>writeKeys\<close> is its end, from line 167: the
  append to the file that exists, with a newline first when the file is not empty, or the
  creation of the file.
\<close>

definition writeKeys :: "bool \<Rightarrow> string \<Rightarrow> string \<Rightarrow> world \<Rightarrow> error option \<times> world" where
  "writeKeys fileExists authorizedKeysPath keysWithUsername w =
     (if fileExists
      then (case os_OpenFile w authorizedKeysPath False False mode_0600 of
              (Some err, w1) \<Rightarrow> (Some err, w1)
            | (None, w1) \<Rightarrow>
                (case file_Stat w1 authorizedKeysPath of
                   Inl err \<Rightarrow> (Some err, w1)
                 | Inr sz \<Rightarrow>
                     (case (if sz > 0 then file_Write w1 authorizedKeysPath [NL]
                            else (None, w1)) of
                        (Some err, w2) \<Rightarrow> (Some err, w2)
                      | (None, w2) \<Rightarrow> file_Write w2 authorizedKeysPath keysWithUsername)))
      else os_WriteFile w authorizedKeysPath keysWithUsername mode_0600)"

text \<open>
  \<^verbatim>\<open>confirmAdd\<close> is the middle, lines 151 to 163: the keys are shown, the operator is asked,
  and the directory is made when it is missing.
\<close>

definition confirmAdd ::
  "(string \<Rightarrow> string) \<Rightarrow> bool \<Rightarrow> string \<Rightarrow> string \<Rightarrow> world \<Rightarrow> error option \<times> world" where
  "confirmAdd mapLower fileExists authorizedKeysPath keysWithUsername w =
     (let w1 = Fprint w (''Keys to be added:'' @ [NL] @ keysWithUsername @ [NL])
      in case promptConfirmation mapLower ''Do you want to add these keys? (yes/no): '' w1 of
           (Inl err, w2) \<Rightarrow> (Some err, w2)
         | (Inr confirmed, w2) \<Rightarrow>
             if \<not> confirmed then (None, Fprintln w2 ''Operation aborted.'')
             else (case ensureSSHDir w2 of
                     (Some err, w3) \<Rightarrow> (Some err, w3)
                   | (None, w3) \<Rightarrow> writeKeys fileExists authorizedKeysPath keysWithUsername w3))"

definition confirmAndAddKeys ::
  "(string \<Rightarrow> string) \<Rightarrow> string \<Rightarrow> string \<Rightarrow> world \<Rightarrow> error option \<times> world" where
  "confirmAndAddKeys mapLower keys username w =
     (let keysWithUsername = appendUsernameToKeys keys username
      in case getAuthorizedKeysPath w of
           Inl err \<Rightarrow> (Some err, w)
         | Inr authorizedKeysPath \<Rightarrow>
             if notExist w authorizedKeysPath
             then (case promptConfirmation mapLower
                          ''The authorized_keys file does not exist. Do you want to create it? (yes/no): '' w of
                     (Inl err, w1) \<Rightarrow> (Some err, w1)
                   | (Inr confirmed, w1) \<Rightarrow>
                       if \<not> confirmed then (None, Fprintln w1 ''Operation aborted.'')
                       else confirmAdd mapLower False authorizedKeysPath keysWithUsername w1)
             else confirmAdd mapLower True authorizedKeysPath keysWithUsername w)"

definition confirmAndRemoveKeys ::
  "(string \<Rightarrow> string) \<Rightarrow> string \<Rightarrow> string \<Rightarrow> world \<Rightarrow> error option \<times> world" where
  "confirmAndRemoveKeys mapLower keys username w =
     (let keysWithUsername = appendUsernameToKeys keys username
      in case getAuthorizedKeysPath w of
           Inl err \<Rightarrow> (Some err, w)
         | Inr authorizedKeysPath \<Rightarrow>
             if notExist w authorizedKeysPath
             then (None, Fprintln w ''The authorized_keys file does not exist.'')
             else
               (let w1 = Fprint w (''Keys to be removed:'' @ [NL] @ keysWithUsername @ [NL])
                in case promptConfirmation mapLower
                          ''Do you want to remove these keys? (yes/no): '' w1 of
                     (Inl err, w2) \<Rightarrow> (Some err, w2)
                   | (Inr confirmed, w2) \<Rightarrow>
                       if \<not> confirmed then (None, Fprintln w2 ''Operation aborted.'')
                       else (case os_ReadFile w2 authorizedKeysPath of
                               Inl err \<Rightarrow> (Some err, w2)
                             | Inr existingKeys \<Rightarrow>
                                 (let newKeys = removeKeysByUsername existingKeys username
                                  in os_WriteFile w2 authorizedKeysPath newKeys mode_0600))))"

definition fetchKeys :: "world \<Rightarrow> string \<Rightarrow> error + string" where
  "fetchKeys w url =
     (case httpGet w url of
        Inl err \<Rightarrow> Inl err
      | Inr response \<Rightarrow>
          if StatusCode response \<noteq> 200
          then Inl (Errorf (''failed to fetch keys: HTTP '' @ Itoa (StatusCode response)))
          else (case Body response of
                  Inl err \<Rightarrow> Inl err
                | Inr keys \<Rightarrow> Inr keys))"

definition run :: "(string \<Rightarrow> string) \<Rightarrow> string list \<Rightarrow> world \<Rightarrow> error option \<times> world" where
  "run mapLower args w =
     (if length args \<noteq> 3
      then (Some (Errorf ''invalid arguments''),
            Fprintln (Fprintln w ''Usage: doorman add <username>'')
                     ''       doorman remove <username>'')
      else
        (let action = args ! 1;
             username = args ! 2;
             keysURL = ''https://github.com/'' @ username @ ''.keys''
         in case fetchKeys w keysURL of
              Inl err \<Rightarrow> (Some (Errorf (''error fetching keys: '' @ Error err)), w)
            | Inr keys \<Rightarrow>
                if length (TrimSpace keys) = 0
                then (Some (Errorf (''no public keys found for user '' @ [CHR 0x27] @ username
                                    @ [CHR 0x27])), w)
                else if action = ''add''
                then (case confirmAndAddKeys mapLower keys username w of
                        (Some err, w1) \<Rightarrow>
                          (Some (Errorf (''error adding keys to authorized_keys: '' @ Error err)), w1)
                      | (None, w1) \<Rightarrow> (None, Fprintln w1 ''Keys added successfully!''))
                else if action = ''remove''
                then (case confirmAndRemoveKeys mapLower keys username w of
                        (Some err, w1) \<Rightarrow>
                          (Some (Errorf (''error removing keys from authorized_keys: ''
                                         @ Error err)), w1)
                      | (None, w1) \<Rightarrow> (None, Fprintln w1 ''Keys removed successfully!''))
                else (Some (Errorf (''invalid action '' @ [CHR 0x27] @ action @ [CHR 0x27]
                                    @ ''. Please use '' @ [CHR 0x27] @ ''add'' @ [CHR 0x27]
                                    @ '' or '' @ [CHR 0x27] @ ''remove'' @ [CHR 0x27])), w)))"

section \<open>Notions the properties are stated with\<close>

text \<open>
  A blob of white space only: read code point by code point from the left, every one is
  white space. Blank lines are of this kind, the line feed being white space.
\<close>

function whitespace_only :: "string \<Rightarrow> bool" where
  "whitespace_only s =
     (if s = [] then True
      else if leadingSpace s = 0 then False
      else whitespace_only (drop (leadingSpace s) s))"
  by pat_completeness auto
termination
proof (relation "measure length")
  fix s :: string
  assume "s \<noteq> []" and "leadingSpace s \<noteq> 0"
  then show "(drop (leadingSpace s) s, s) \<in> measure length"
    by simp
qed simp

declare whitespace_only.simps [simp del]

text \<open>The lines of a blob, each one trimmed, without the lines that trimming empties.\<close>

definition trimmedLines :: "string \<Rightarrow> string list" where
  "trimmedLines s = filter (\<lambda>line. line \<noteq> []) (map TrimSpace (Split s NL))"

text \<open>
  What the operator answers to the next prompt: the next line of standard input (or what
  is left of it at the end of the input) is a yes, or is something else; and the input
  that is left after that answer.
\<close>

definition accepts :: "(string \<Rightarrow> string) \<Rightarrow> reader \<Rightarrow> bool" where
  "accepts mapLower b =
     (case ReadString b NL of
        ((line, err), b') \<Rightarrow>
          (err = None \<or> err = Some EOF) \<and> ToLower mapLower (TrimSpace line) = ''yes'')"

definition declines :: "(string \<Rightarrow> string) \<Rightarrow> reader \<Rightarrow> bool" where
  "declines mapLower b =
     (case ReadString b NL of
        ((line, err), b') \<Rightarrow>
          (err = None \<or> err = Some EOF) \<and> ToLower mapLower (TrimSpace line) \<noteq> ''yes'')"

definition afterReply :: "reader \<Rightarrow> reader" where
  "afterReply b = snd (ReadString b NL)"

text \<open>
  Two facts of UTF-8 that the proofs about trimming use: the first byte of an encoding
  gives its length, and the bytes after the first are continuation bytes
  (\<^verbatim>\<open>10xxxxxx\<close>), which start no encoding.
\<close>

definition runeWidth :: "char \<Rightarrow> nat" where
  "runeWidth c =
     (if c = CHR 0xC2 then 2 else if c \<in> {CHR 0xE1, CHR 0xE2, CHR 0xE3} then 3 else 1)"

definition continuation :: "char \<Rightarrow> bool" where
  "continuation c \<longleftrightarrow> 0x80 \<le> (of_char c :: nat) \<and> (of_char c :: nat) < 0xC0"

text \<open>
  Two worlds to run the program in. In \<^verbatim>\<open>demo\<close> the user has no \<^verbatim>\<open>.ssh\<close> directory, the
  operator answers no, and the key server sends blank lines; in \<^verbatim>\<open>demo_store\<close> the
  credential file holds a key of alice.
\<close>

definition demo :: world where
  "demo = \<lparr>stdout = [], stdin = \<lparr>pending = ''no'' @ [NL], ending = EOF\<rparr>,
            userCurrent = Inr ''/home/u'',
            httpGet = (\<lambda>url. Inr \<lparr>StatusCode = 200, Body = Inr ('' '' @ [NL, NL] @ ''  '')\<rparr>),
            fs = Map.empty, fault = (\<lambda>c. None)\<rparr>"

definition demo_store :: world where
  "demo_store =
     demo\<lparr>fs := [''/home/u/.ssh'' \<mapsto> Dir mode_0700,
                  ''/home/u/.ssh/authorized_keys'' \<mapsto> File mode_0600 ''ssh-rsa K0 alice'']\<rparr>"

text \<open>
  In \<^verbatim>\<open>demo_blocked\<close> the name \<^verbatim>\<open>.ssh\<close> is a regular file, so that there is no credential
  file and every system call on its path fails with \<^verbatim>\<open>ENOTDIR\<close>; the operator answers
  yes.
\<close>

definition demo_blocked :: world where
  "demo_blocked =
     demo\<lparr>stdin := \<lparr>pending = ''yes'' @ [NL], ending = EOF\<rparr>,
          fs := [''/home/u/.ssh'' \<mapsto> File mode_0600 []],
          fault := (\<lambda>c. if c = SysStat ''/home/u/.ssh/authorized_keys''
                            \<or> c = SysOpen ''/home/u/.ssh/authorized_keys''
                         then Some ENOTDIR else None)\<rparr>"

section \<open>Facts about splitting and joining\<close>

lemma HasSuffix_iff_suffix: "HasSuffix s t \<longleftrightarrow> suffix t s"
proof
  assume "HasSuffix s t"
  then have "s = take (length s - length t) s @ t"
    by (metis HasSuffix_def append_take_drop_id)
  then show "suffix t s"
    by (rule suffixI)
next
  assume "suffix t s"
  then obtain p where "s = p @ t"
    by (auto simp: suffix_def)
  then show "HasSuffix s t"
    by (simp add: HasSuffix_def)
qed

lemma Split_not_Nil: "Split s sep \<noteq> []"
  by (induction s) (auto split: list.splits)

lemma Join_Cons: "elems \<noteq> [] \<Longrightarrow> Join (e # elems) sep = e @ sep @ Join elems sep"
  by (cases elems) simp_all

lemma Join_Split: "Join (Split s sep) [sep] = s"
proof (induction s)
  case Nil
  show ?case by simp
next
  case (Cons c s)
  show ?case
  proof (cases "c = sep")
    case True
    with Cons show ?thesis
      by (simp add: Join_Cons Split_not_Nil)
  next
    case False
    obtain piece pieces where sp: "Split s sep = piece # pieces"
      using Split_not_Nil [of s sep] by (cases "Split s sep") auto
    from Cons sp False show ?thesis
      by (cases pieces) auto
  qed
qed

lemma Split_free: "piece \<in> set (Split s sep) \<Longrightarrow> sep \<notin> set piece"
  by (induction s arbitrary: piece) (auto split: if_splits list.splits)

lemma Split_append_piece:
  "sep \<notin> set p \<Longrightarrow> Split (p @ s) sep = (p @ hd (Split s sep)) # tl (Split s sep)"
proof (induction p)
  case Nil
  show ?case using Split_not_Nil [of s sep] by simp
next
  case (Cons c p)
  then show ?case by auto
qed

lemma Split_Join:
  "elems \<noteq> [] \<Longrightarrow> \<forall>e \<in> set elems. sep \<notin> set e \<Longrightarrow> Split (Join elems [sep]) sep = elems"
proof (induction elems)
  case Nil
  then show ?case by simp
next
  case (Cons e elems)
  show ?case
  proof (cases elems)
    case Nil
    have "Split (e @ []) sep = (e @ hd (Split [] sep)) # tl (Split [] sep)"
      using Cons.prems by (intro Split_append_piece) simp
    with Nil show ?thesis by simp
  next
    case (Cons f rest)
    have e: "sep \<notin> set e"
      using Cons.prems by simp
    have ih: "Split (Join elems [sep]) sep = elems"
      using Cons.IH Cons.prems Cons by simp
    have "Split (e @ sep # Join elems [sep]) sep =
            (e @ hd (Split (sep # Join elems [sep]) sep)) # tl (Split (sep # Join elems [sep]) sep)"
      using e by (rule Split_append_piece)
    with ih Cons show ?thesis by simp
  qed
qed

lemma removeLoop_filter:
  "removeLoop lines sfx newLines =
     newLines @ filter (\<lambda>line. \<not> HasSuffix line sfx) lines"
  by (induction lines arbitrary: newLines) simp_all

lemma removeKeysByUsername_filter:
  "removeKeysByUsername keys username =
     Join (filter (\<lambda>line. \<not> suffix ('' '' @ username) line) (Split keys NL)) [NL]"
  by (simp add: removeKeysByUsername_def removeLoop_filter HasSuffix_iff_suffix)

lemma removeKeysByUsername_lines:
  "Split (removeKeysByUsername keys username) NL =
     (if \<forall>line \<in> set (Split keys NL). suffix ('' '' @ username) line then [[]]
      else filter (\<lambda>line. \<not> suffix ('' '' @ username) line) (Split keys NL))"
proof -
  let ?kept = "filter (\<lambda>line. \<not> suffix ('' '' @ username) line) (Split keys NL)"
  show ?thesis
  proof (cases "?kept = []")
    case True
    then have "\<forall>line \<in> set (Split keys NL). suffix ('' '' @ username) line"
      by (simp add: filter_empty_conv)
    with True show ?thesis
      by (simp add: removeKeysByUsername_filter)
  next
    case False
    then have some: "\<not> (\<forall>line \<in> set (Split keys NL). suffix ('' '' @ username) line)"
      by (simp add: filter_empty_conv)
    have "\<forall>e \<in> set ?kept. NL \<notin> set e"
      using Split_free by auto
    with False have "Split (Join ?kept [NL]) NL = ?kept"
      by (rule Split_Join)
    with some show ?thesis
      by (simp add: removeKeysByUsername_filter)
  qed
qed

section \<open>Facts about trimming\<close>

lemma leadingSpace_le: "leadingSpace s \<le> length s"
proof (cases "find (\<lambda>r. HasPrefix s r) spaceRunes")
  case None
  then show ?thesis by (simp add: leadingSpace_def)
next
  case (Some r)
  then have "HasPrefix s r"
    by (auto simp: find_Some_iff)
  with Some show ?thesis
    by (simp add: leadingSpace_def HasPrefix_def)
qed

lemma trailingSpace_le: "trailingSpace s \<le> length s"
proof (cases "find (\<lambda>r. HasSuffix s r) spaceRunes")
  case None
  then show ?thesis by (simp add: trailingSpace_def)
next
  case (Some r)
  then have "HasSuffix s r"
    by (auto simp: find_Some_iff)
  with Some show ?thesis
    by (simp add: trailingSpace_def HasSuffix_def)
qed

lemma find_unique:
  assumes "x \<in> set xs" and "P x" and "\<And>y. y \<in> set xs \<Longrightarrow> P y \<Longrightarrow> y = x"
  shows "find P xs = Some x"
proof (cases "find P xs")
  case None
  with assms(1,2) show ?thesis
    by (simp add: find_None_iff)
next
  case (Some y)
  then have "P y" and "y \<in> set xs"
    by (auto simp: find_Some_iff)
  with assms(3) Some show ?thesis
    by simp
qed

lemma spaceRunes_width: "r \<in> set spaceRunes \<Longrightarrow> r \<noteq> [] \<and> length r = runeWidth (hd r)"
  by (auto simp: spaceRunes_def runeWidth_def)

lemma spaceRunes_hd: "r \<in> set spaceRunes \<Longrightarrow> \<not> continuation (hd r)"
  by (auto simp: spaceRunes_def continuation_def)

lemma spaceRunes_tl: "r \<in> set spaceRunes \<Longrightarrow> c \<in> set (tl r) \<Longrightarrow> continuation c"
  by (auto simp: spaceRunes_def continuation_def)

lemma spaceRunes_NL: "r \<in> set spaceRunes \<Longrightarrow> r = [NL] \<or> NL \<notin> set r"
  by (auto simp: spaceRunes_def)

lemma HasPrefix_iff_prefix: "HasPrefix s t \<longleftrightarrow> prefix t s"
proof
  assume "HasPrefix s t"
  then have "s = t @ drop (length t) s"
    by (metis HasPrefix_def append_take_drop_id)
  then show "prefix t s"
    by (rule prefixI)
next
  assume "prefix t s"
  then obtain p where "s = t @ p"
    by (auto simp: prefix_def)
  then show "HasPrefix s t"
    by (simp add: HasPrefix_def)
qed

lemma leadingSpace_rune:
  assumes "r \<in> set spaceRunes"
  shows "leadingSpace (r @ s) = length r"
proof -
  have "find (\<lambda>r'. HasPrefix (r @ s) r') spaceRunes = Some r"
  proof (rule find_unique [OF assms])
    show "HasPrefix (r @ s) r"
      by (simp add: HasPrefix_def)
  next
    fix r'
    assume r': "r' \<in> set spaceRunes" and p: "HasPrefix (r @ s) r'"
    from r' assms have ne: "r' \<noteq> []" "r \<noteq> []"
      using spaceRunes_width by auto
    from p have tk: "take (length r') (r @ s) = r'"
      by (simp add: HasPrefix_def)
    from ne have "hd (take (length r') (r @ s)) = hd r"
      by (simp add: hd_take)
    with tk have "hd r' = hd r"
      by simp
    then have "length r' = length r"
      using spaceRunes_width [OF r'] spaceRunes_width [OF assms] by simp
    with tk show "r' = r"
      by simp
  qed
  then show ?thesis
    by (simp add: leadingSpace_def)
qed

lemma trailingSpace_rune:
  assumes "r \<in> set spaceRunes"
  shows "trailingSpace (s @ r) = length r"
proof -
  have suffix_eq: "r1 = r2"
    if "r1 \<in> set spaceRunes" "r2 \<in> set spaceRunes" "suffix r1 r2" for r1 r2
  proof (rule ccontr)
    assume "r1 \<noteq> r2"
    with that(3) obtain p where p: "r2 = p @ r1" "p \<noteq> []"
      by (auto simp: suffix_def)
    from that(1) have "r1 \<noteq> []"
      using spaceRunes_width by auto
    with p have "hd r1 \<in> set (tl r2)"
      by (cases p; cases r1) auto
    with that show False
      using spaceRunes_tl spaceRunes_hd by blast
  qed
  have "find (\<lambda>r'. HasSuffix (s @ r) r') spaceRunes = Some r"
  proof (rule find_unique [OF assms])
    show "HasSuffix (s @ r) r"
      by (simp add: HasSuffix_def)
  next
    fix r'
    assume r': "r' \<in> set spaceRunes" and p: "HasSuffix (s @ r) r'"
    then have "suffix r' (s @ r)"
      by (simp add: HasSuffix_iff_suffix)
    moreover have "suffix r (s @ r)"
      by (simp add: suffix_def)
    ultimately have "suffix r' r \<or> suffix r r'"
      by (rule suffix_same_cases)
    with r' assms suffix_eq show "r' = r"
      by blast
  qed
  then show ?thesis
    by (simp add: trailingSpace_def)
qed

lemma leadingSpace_take:
  assumes "leadingSpace s \<noteq> 0"
  shows "take (leadingSpace s) s \<in> set spaceRunes"
proof -
  from assms obtain r where f: "find (\<lambda>r. HasPrefix s r) spaceRunes = Some r"
    and l: "leadingSpace s = length r"
    by (auto simp: leadingSpace_def split: option.splits)
  from f have "r \<in> set spaceRunes" and "HasPrefix s r"
    by (auto simp: find_Some_iff)
  with l show ?thesis
    by (simp add: HasPrefix_def)
qed

lemma trailingSpace_drop:
  assumes "trailingSpace s \<noteq> 0"
  shows "drop (length s - trailingSpace s) s \<in> set spaceRunes"
proof -
  from assms obtain r where f: "find (\<lambda>r. HasSuffix s r) spaceRunes = Some r"
    and l: "trailingSpace s = length r"
    by (auto simp: trailingSpace_def split: option.splits)
  from f have "r \<in> set spaceRunes" and "HasSuffix s r"
    by (auto simp: find_Some_iff)
  with l show ?thesis
    by (simp add: HasSuffix_def)
qed

lemma spaceRunes_not_Nil: "r \<in> set spaceRunes \<Longrightarrow> r \<noteq> []"
  using spaceRunes_width by blast

lemma TrimLeft_rune:
  assumes "r \<in> set spaceRunes"
  shows "TrimLeft (r @ s) = TrimLeft s"
proof -
  have "leadingSpace (r @ s) = length r" and "length r \<noteq> 0"
    using assms by (simp_all add: leadingSpace_rune spaceRunes_not_Nil)
  then show ?thesis
    by (subst TrimLeft.simps) simp
qed

lemma TrimRight_rune:
  assumes "r \<in> set spaceRunes"
  shows "TrimRight (s @ r) = TrimRight s"
proof -
  have "trailingSpace (s @ r) = length r" and "length r \<noteq> 0"
    using assms by (simp_all add: trailingSpace_rune spaceRunes_not_Nil)
  then show ?thesis
    by (subst TrimRight.simps) simp
qed

lemma leadingSpace_Nil: "leadingSpace [] = 0"
  using leadingSpace_le [of "[]"] by simp

lemma trailingSpace_Nil: "trailingSpace [] = 0"
  using trailingSpace_le [of "[]"] by simp

lemma leadingSpace_no_straddle:
  assumes "l \<noteq> []" and "leadingSpace l = 0" and "r \<in> set spaceRunes"
  shows "leadingSpace (l @ r) = 0"
proof (rule ccontr)
  assume "leadingSpace (l @ r) \<noteq> 0"
  then have mem: "take (leadingSpace (l @ r)) (l @ r) \<in> set spaceRunes"
    by (rule leadingSpace_take)
  define r' where "r' = take (leadingSpace (l @ r)) (l @ r)"
  have pre: "prefix r' (l @ r)"
    unfolding r'_def by (rule take_is_prefix)
  from mem have r': "r' \<in> set spaceRunes"
    by (simp add: r'_def)
  from pre have "prefix r' l \<or> (\<exists>x. r' = l @ x \<and> prefix x r \<and> x \<noteq> [])"
    by (cases "prefix r' l") (auto simp: prefix_append)
  then consider "prefix r' l" | x where "r' = l @ x" "prefix x r" "x \<noteq> []"
    by blast
  then show False
  proof cases
    case 1
    then obtain t where "l = r' @ t"
      by (auto simp: prefix_def)
    with r' have "leadingSpace l = length r'"
      by (simp add: leadingSpace_rune)
    with assms(2) r' show False
      using spaceRunes_not_Nil by auto
  next
    case 2
    from 2(2,3) have "hd x = hd r"
      by (auto simp: prefix_def)
    moreover from 2(1,3) assms(1) have "hd x \<in> set (tl r')"
      by (cases l; cases x) auto
    ultimately show False
      using spaceRunes_tl [OF r'] spaceRunes_hd [OF assms(3)] by auto
  qed
qed

lemma TrimLeft_Nil: "TrimLeft [] = []"
  by (subst TrimLeft.simps) (simp add: leadingSpace_Nil)

lemma TrimLeft_append_rune:
  "r \<in> set spaceRunes \<Longrightarrow>
     TrimLeft (l @ r) = (if TrimLeft l = [] then [] else TrimLeft l @ r)"
proof (induction l rule: TrimLeft.induct)
  case (1 l)
  show ?case
  proof (cases "leadingSpace l = 0")
    case True
    then have tl: "TrimLeft l = l"
      by (subst TrimLeft.simps) simp
    show ?thesis
    proof (cases "l = []")
      case True
      with 1(2) TrimLeft_rune [of r "[]"] show ?thesis
        by (simp add: TrimLeft_Nil)
    next
      case False
      with True 1(2) have "leadingSpace (l @ r) = 0"
        by (intro leadingSpace_no_straddle)
      then have "TrimLeft (l @ r) = l @ r"
        by (subst TrimLeft.simps) simp
      with tl False show ?thesis
        by simp
    qed
  next
    case False
    define r' where "r' = take (leadingSpace l) l"
    from False have r': "r' \<in> set spaceRunes"
      unfolding r'_def by (rule leadingSpace_take)
    have l: "l = r' @ drop (leadingSpace l) l"
      by (simp add: r'_def)
    have "TrimLeft (l @ r) = TrimLeft (r' @ (drop (leadingSpace l) l @ r))"
      using l by (metis append.assoc)
    also have "\<dots> = TrimLeft (drop (leadingSpace l) l @ r)"
      using r' by (rule TrimLeft_rune)
    also have "\<dots> = (if TrimLeft (drop (leadingSpace l) l) = [] then []
                        else TrimLeft (drop (leadingSpace l) l) @ r)"
      using 1(1) [OF False 1(2)] .
    also have "TrimLeft (drop (leadingSpace l) l) = TrimLeft l"
      using False by (subst (2) TrimLeft.simps) simp
    finally show ?thesis .
  qed
qed

lemma TrimRight_Nil: "TrimRight [] = []"
  by (subst TrimRight.simps) (simp add: trailingSpace_Nil)

lemma TrimSpace_rune_append: "r \<in> set spaceRunes \<Longrightarrow> TrimSpace (r @ s) = TrimSpace s"
  by (simp add: TrimSpace_def TrimLeft_rune)

lemma TrimSpace_append_rune: "r \<in> set spaceRunes \<Longrightarrow> TrimSpace (s @ r) = TrimSpace s"
  by (simp add: TrimSpace_def TrimLeft_append_rune TrimRight_rune TrimRight_Nil)

lemma Split_snoc_sep: "Split (s @ [sep]) sep = Split s sep @ [[]]"
proof (induction s)
  case Nil
  show ?case by simp
next
  case (Cons c s)
  then show ?case
    using Split_not_Nil [of s sep] by (cases "Split s sep") auto
qed

lemma Split_snoc_piece:
  "sep \<notin> set p \<Longrightarrow> Split (s @ p) sep = butlast (Split s sep) @ [last (Split s sep) @ p]"
proof (induction s)
  case Nil
  then show ?case
    using Split_append_piece [of sep p "[]"] by simp
next
  case (Cons c s)
  obtain piece pieces where sp: "Split s sep = piece # pieces"
    using Split_not_Nil [of s sep] by (cases "Split s sep") auto
  from Cons sp show ?case
    by (cases pieces) auto
qed

lemma TrimSpace_Nil: "TrimSpace [] = []"
  by (simp add: TrimSpace_def TrimLeft_Nil TrimRight_Nil)

lemma trimmedLines_rune_append:
  assumes "r \<in> set spaceRunes"
  shows "trimmedLines (r @ s) = trimmedLines s"
proof -
  from assms spaceRunes_NL consider "r = [NL]" | "NL \<notin> set r"
    by blast
  then show ?thesis
  proof cases
    case 1
    then show ?thesis
      by (simp add: trimmedLines_def TrimSpace_Nil)
  next
    case 2
    obtain piece pieces where sp: "Split s NL = piece # pieces"
      using Split_not_Nil [of s NL] by (cases "Split s NL") auto
    from 2 have "Split (r @ s) NL = (r @ hd (Split s NL)) # tl (Split s NL)"
      by (rule Split_append_piece)
    with sp assms show ?thesis
      by (simp add: trimmedLines_def TrimSpace_rune_append)
  qed
qed

lemma trimmedLines_append_rune:
  assumes "r \<in> set spaceRunes"
  shows "trimmedLines (s @ r) = trimmedLines s"
proof -
  from assms spaceRunes_NL consider "r = [NL]" | "NL \<notin> set r"
    by blast
  then show ?thesis
  proof cases
    case 1
    then show ?thesis
      by (simp add: trimmedLines_def TrimSpace_Nil Split_snoc_sep)
  next
    case 2
    have ne: "Split s NL \<noteq> []"
      by (rule Split_not_Nil)
    from 2 have "Split (s @ r) NL = butlast (Split s NL) @ [last (Split s NL) @ r]"
      by (rule Split_snoc_piece)
    then have "map TrimSpace (Split (s @ r) NL) =
                 map TrimSpace (butlast (Split s NL)) @ [TrimSpace (last (Split s NL))]"
      using assms by (simp add: TrimSpace_append_rune)
    also have "\<dots> = map TrimSpace (butlast (Split s NL) @ [last (Split s NL)])"
      by simp
    also have "\<dots> = map TrimSpace (Split s NL)"
      using ne by simp
    finally show ?thesis
      by (simp add: trimmedLines_def)
  qed
qed

lemma trimmedLines_TrimLeft: "trimmedLines (TrimLeft s) = trimmedLines s"
proof (induction s rule: TrimLeft.induct)
  case (1 s)
  show ?case
  proof (cases "leadingSpace s = 0")
    case True
    then show ?thesis
      by (subst TrimLeft.simps) simp
  next
    case False
    have "trimmedLines (TrimLeft s) = trimmedLines (TrimLeft (drop (leadingSpace s) s))"
      using False by (subst TrimLeft.simps) simp
    also have "\<dots> = trimmedLines (drop (leadingSpace s) s)"
      using False by (rule 1)
    also have "\<dots> = trimmedLines (take (leadingSpace s) s @ drop (leadingSpace s) s)"
      using leadingSpace_take [OF False] by (rule trimmedLines_rune_append [symmetric])
    finally show ?thesis
      by simp
  qed
qed

lemma trimmedLines_TrimRight: "trimmedLines (TrimRight s) = trimmedLines s"
proof (induction s rule: TrimRight.induct)
  case (1 s)
  show ?case
  proof (cases "trailingSpace s = 0")
    case True
    then show ?thesis
      by (subst TrimRight.simps) simp
  next
    case False
    have "trimmedLines (TrimRight s) = trimmedLines (TrimRight (take (length s - trailingSpace s) s))"
      using False by (subst TrimRight.simps) simp
    also have "\<dots> = trimmedLines (take (length s - trailingSpace s) s)"
      using False by (rule 1)
    also have "\<dots> = trimmedLines (take (length s - trailingSpace s) s @ drop (length s - trailingSpace s) s)"
      using trailingSpace_drop [OF False] by (rule trimmedLines_append_rune [symmetric])
    finally show ?thesis
      by simp
  qed
qed

lemma trimmedLines_TrimSpace: "trimmedLines (TrimSpace s) = trimmedLines s"
  by (simp add: TrimSpace_def trimmedLines_TrimLeft trimmedLines_TrimRight)

lemma appendLoop_map:
  "appendLoop lines username result =
     result @ map (\<lambda>line. line @ '' '' @ username)
                (filter (\<lambda>line. line \<noteq> []) (map TrimSpace lines))"
  by (induction lines arbitrary: result) (simp_all add: Let_def)

lemma appendUsernameToKeys_lines:
  "appendUsernameToKeys keys username =
     Join (map (\<lambda>line. line @ '' '' @ username) (trimmedLines keys)) [NL]"
proof -
  have "appendUsernameToKeys keys username =
          Join (map (\<lambda>line. line @ '' '' @ username) (trimmedLines (TrimSpace keys))) [NL]"
    by (simp add: appendUsernameToKeys_def appendLoop_map trimmedLines_def)
  then show ?thesis
    by (simp add: trimmedLines_TrimSpace)
qed

lemma whitespace_only_TrimLeft: "whitespace_only s \<longleftrightarrow> TrimLeft s = []"
proof (induction s rule: TrimLeft.induct)
  case (1 s)
  show ?case
  proof (cases "leadingSpace s = 0")
    case True
    then show ?thesis
      by (subst whitespace_only.simps, subst TrimLeft.simps) simp
  next
    case False
    then have "s \<noteq> []"
      using leadingSpace_Nil by auto
    with False 1 show ?thesis
      by (subst whitespace_only.simps, subst TrimLeft.simps) simp
  qed
qed

lemma whitespace_only_TrimSpace: "whitespace_only s \<Longrightarrow> TrimSpace s = []"
  by (simp add: whitespace_only_TrimLeft TrimSpace_def TrimRight_Nil)

lemma whitespace_only_concat:
  "whitespace_only s \<longleftrightarrow> (\<exists>rs. set rs \<subseteq> set spaceRunes \<and> s = concat rs)"
proof
  show "whitespace_only s \<Longrightarrow> \<exists>rs. set rs \<subseteq> set spaceRunes \<and> s = concat rs"
  proof (induction s rule: whitespace_only.induct)
    case (1 s)
    show ?case
    proof (cases "s = []")
      case True
      then have "set [] \<subseteq> set spaceRunes \<and> s = concat []"
        by simp
      then show ?thesis
        by blast
    next
      case False
      with 1(2) have ls: "leadingSpace s \<noteq> 0" and rest: "whitespace_only (drop (leadingSpace s) s)"
        by (subst (asm) whitespace_only.simps, simp split: if_splits)+
      from 1(1) [OF False ls rest] obtain rs
        where rs: "set rs \<subseteq> set spaceRunes" "drop (leadingSpace s) s = concat rs"
        by blast
      have "set (take (leadingSpace s) s # rs) \<subseteq> set spaceRunes"
        using rs(1) leadingSpace_take [OF ls] by simp
      moreover have "s = concat (take (leadingSpace s) s # rs)"
        using rs(2) by (metis append_take_drop_id concat.simps(2))
      ultimately show ?thesis
        by blast
    qed
  qed
next
  assume "\<exists>rs. set rs \<subseteq> set spaceRunes \<and> s = concat rs"
  then obtain rs where "set rs \<subseteq> set spaceRunes" "s = concat rs"
    by blast
  then show "whitespace_only s"
  proof (induction rs arbitrary: s)
    case Nil
    then show ?case
      by (subst whitespace_only.simps) simp
  next
    case (Cons r rs)
    then have r: "r \<in> set spaceRunes" and w: "whitespace_only (concat rs)"
      by simp_all
    from r have "leadingSpace (r @ concat rs) = length r" "r \<noteq> []"
      by (simp_all add: leadingSpace_rune spaceRunes_not_Nil)
    with w Cons.prems(2) show ?case
      by (subst whitespace_only.simps) simp
  qed
qed

section \<open>Facts about the prompt and the system calls\<close>

lemma of_char_asciiLower:
  "(of_char (asciiLower c) :: nat) =
     (if 0x41 \<le> (of_char c :: nat) \<and> (of_char c :: nat) \<le> 0x5A then of_char c + 0x20 else of_char c)"
  by (simp add: asciiLower_def)

lemma asciiLower_eq:
  assumes "(of_char lo :: nat) = of_char up + 0x20"
    and "0x41 \<le> (of_char up :: nat)" and "(of_char up :: nat) \<le> 0x5A"
  shows "asciiLower c = lo \<longleftrightarrow> c = lo \<or> c = up"
proof -
  have "asciiLower c = lo \<longleftrightarrow> (of_char (asciiLower c) :: nat) = of_char lo"
    by (simp only: of_char_eq_iff)
  also have "\<dots> \<longleftrightarrow> (of_char c :: nat) = of_char lo \<or> (of_char c :: nat) = of_char up"
    using assms by (auto simp: of_char_asciiLower)
  also have "\<dots> \<longleftrightarrow> c = lo \<or> c = up"
    by (simp only: of_char_eq_iff)
  finally show ?thesis .
qed

lemma asciiLower_yes:
  "asciiLower c = CHR ''y'' \<longleftrightarrow> c = CHR ''y'' \<or> c = CHR ''Y''"
  "asciiLower c = CHR ''e'' \<longleftrightarrow> c = CHR ''e'' \<or> c = CHR ''E''"
  "asciiLower c = CHR ''s'' \<longleftrightarrow> c = CHR ''s'' \<or> c = CHR ''S''"
  by (rule asciiLower_eq; simp)+

lemma ToLower_ascii_yes:
  assumes "list_all (\<lambda>c. of_char c < (0x80::nat)) s"
  shows "ToLower mapLower s = ''yes'' \<longleftrightarrow>
           s \<in> set [''yes'', ''yeS'', ''yEs'', ''yES'', ''Yes'', ''YeS'', ''YEs'', ''YES'']"
proof -
  have "ToLower mapLower s = map asciiLower s"
    using assms by (simp add: ToLower_def)
  moreover have "map asciiLower s = ''yes'' \<longleftrightarrow>
       (\<exists>a b c. s = [a, b, c] \<and> asciiLower a = CHR ''y'' \<and> asciiLower b = CHR ''e''
                 \<and> asciiLower c = CHR ''s'')"
    by (auto simp: map_eq_Cons_conv)
  ultimately show ?thesis
    by (auto simp: asciiLower_yes)
qed


lemma takeWhile_sep: "sep \<notin> set l \<Longrightarrow> takeWhile (\<lambda>c. c \<noteq> sep) (l @ sep # rest) = l"
  by (induction l) auto

lemma dropWhile_sep: "sep \<notin> set l \<Longrightarrow> dropWhile (\<lambda>c. c \<noteq> sep) (l @ sep # rest) = sep # rest"
  by (induction l) auto

lemma set_TrimLeft: "set (TrimLeft s) \<subseteq> set s"
proof (induction s rule: TrimLeft.induct)
  case (1 s)
  show ?case
  proof (cases "leadingSpace s = 0")
    case True
    then show ?thesis
      by (subst TrimLeft.simps) simp
  next
    case False
    then have "TrimLeft s = TrimLeft (drop (leadingSpace s) s)"
      by (subst TrimLeft.simps) simp
    with 1 [OF False] set_drop_subset [of "leadingSpace s" s] show ?thesis
      by auto
  qed
qed

lemma set_TrimRight: "set (TrimRight s) \<subseteq> set s"
proof (induction s rule: TrimRight.induct)
  case (1 s)
  show ?case
  proof (cases "trailingSpace s = 0")
    case True
    then show ?thesis
      by (subst TrimRight.simps) simp
  next
    case False
    then have "TrimRight s = TrimRight (take (length s - trailingSpace s) s)"
      by (subst TrimRight.simps) simp
    with 1 [OF False] set_take_subset [of "length s - trailingSpace s" s] show ?thesis
      by auto
  qed
qed

lemma set_TrimSpace: "set (TrimSpace s) \<subseteq> set s"
  unfolding TrimSpace_def using set_TrimLeft [of s] set_TrimRight [of "TrimLeft s"] by blast

lemma ReadString_line:
  assumes "NL \<notin> set l" and "pending b = l @ NL # rest"
  shows "ReadString b NL = ((l @ [NL], None), b\<lparr>pending := rest\<rparr>)"
proof -
  from assms have "takeWhile (\<lambda>c. c \<noteq> NL) (pending b) = l"
    and "dropWhile (\<lambda>c. c \<noteq> NL) (pending b) = NL # rest"
    by (simp_all add: takeWhile_sep dropWhile_sep)
  with assms(2) show ?thesis
    by (simp add: ReadString_def)
qed

lemma ReadString_end:
  assumes "NL \<notin> set (pending b)"
  shows "ReadString b NL = ((pending b, Some (ending b)), b\<lparr>pending := []\<rparr>)"
  using assms by (simp add: ReadString_def)

lemma promptConfirmation_ReadString:
  assumes "ReadString (stdin w) NL = ((line, err), b)"
  shows "promptConfirmation mapLower prompt w =
     ((case err of
         Some e \<Rightarrow> if e \<noteq> EOF then Inl e else Inr (ToLower mapLower (TrimSpace line) = ''yes'')
       | None \<Rightarrow> Inr (ToLower mapLower (TrimSpace line) = ''yes'')),
      w\<lparr>stdout := stdout w @ prompt, stdin := b\<rparr>)"
  using assms by (simp add: promptConfirmation_def Fprint_def split: option.splits)

lemma promptConfirmation_declines:
  assumes "declines mapLower (stdin w)"
  shows "promptConfirmation mapLower prompt w =
           (Inr False, w\<lparr>stdout := stdout w @ prompt, stdin := afterReply (stdin w)\<rparr>)"
proof -
  obtain line err b where r: "ReadString (stdin w) NL = ((line, err), b)"
    by (metis surj_pair)
  with assms show ?thesis
    by (auto simp: promptConfirmation_ReadString [OF r] declines_def afterReply_def)
qed

lemma promptConfirmation_accepts:
  assumes "accepts mapLower (stdin w)"
  shows "promptConfirmation mapLower prompt w =
           (Inr True, w\<lparr>stdout := stdout w @ prompt, stdin := afterReply (stdin w)\<rparr>)"
proof -
  obtain line err b where r: "ReadString (stdin w) NL = ((line, err), b)"
    by (metis surj_pair)
  with assms show ?thesis
    by (auto simp: promptConfirmation_ReadString [OF r] accepts_def afterReply_def)
qed

lemma ToLower_Nil: "ToLower mapLower [] = []"
  by (simp add: ToLower_def)

lemma Split_sep_append: "Split (s @ sep # t) sep = Split s sep @ Split t sep"
proof (induction s)
  case Nil
  show ?case by simp
next
  case (Cons c s)
  obtain piece pieces where sp: "Split s sep = piece # pieces"
    using Split_not_Nil [of s sep] by (cases "Split s sep") auto
  from Cons sp show ?case
    by simp
qed

lemma cleanLoop_append:
  "cleanLoop rooted (es @ gs) out = cleanLoop rooted gs (cleanLoop rooted es out)"
  by (induction rooted es out rule: cleanLoop.induct) auto

lemma Join_snoc: "elems \<noteq> [] \<Longrightarrow> Join (elems @ [e]) sep = Join elems sep @ sep @ e"
proof (induction elems)
  case Nil
  then show ?case by simp
next
  case (Cons a elems)
  then show ?case
    by (cases elems) (simp_all add: Join_Cons)
qed

lemma Join_ssh:
  "Join (out @ [''.ssh'', ''authorized_keys'']) ''/'' =
     Join (out @ [''.ssh'']) ''/'' @ ''/authorized_keys''"
  using Join_snoc [of "out @ [''.ssh'']" "''authorized_keys''" "''/''"] by simp

lemma filepath_Clean_ssh:
  assumes "home \<noteq> []"
  shows "filepath_Clean (home @ ''/.ssh/authorized_keys'') =
           filepath_Clean (home @ ''/.ssh'') @ ''/authorized_keys''"
proof -
  let ?rooted = "hd home = CHR ''/''"
  let ?out = "cleanLoop ?rooted (Split home (CHR ''/'')) []"
  have s1: "Split (home @ ''/.ssh/authorized_keys'') (CHR ''/'') =
              Split home (CHR ''/'') @ [''.ssh'', ''authorized_keys'']"
    using Split_sep_append [of home "CHR ''/''" "''.ssh/authorized_keys''"] by simp
  have s2: "Split (home @ ''/.ssh'') (CHR ''/'') = Split home (CHR ''/'') @ [''.ssh'']"
    using Split_sep_append [of home "CHR ''/''" "''.ssh''"] by simp
  have c1: "cleanLoop ?rooted (Split (home @ ''/.ssh/authorized_keys'') (CHR ''/'')) [] =
              ?out @ [''.ssh'', ''authorized_keys'']"
    by (simp add: s1 cleanLoop_append)
  have c2: "cleanLoop ?rooted (Split (home @ ''/.ssh'') (CHR ''/'')) [] = ?out @ [''.ssh'']"
    by (simp add: s2 cleanLoop_append)
  have ne: "Join (?out @ [''.ssh'']) ''/'' \<noteq> []"
    by (cases "?out = []") (simp_all add: Join_snoc)
  have "filepath_Clean (home @ ''/.ssh'') =
          (if ?rooted then ''/'' else []) @ Join (?out @ [''.ssh'']) ''/''"
    using assms ne c2 by (simp add: filepath_Clean_def Let_def del: Split.simps cleanLoop.simps)
  moreover have "filepath_Clean (home @ ''/.ssh/authorized_keys'') =
          (if ?rooted then ''/'' else []) @ Join (?out @ [''.ssh'', ''authorized_keys'']) ''/''"
    using assms ne c1 Join_ssh [of ?out]
    by (simp add: filepath_Clean_def Let_def del: Split.simps cleanLoop.simps)
  ultimately show ?thesis
    using Join_ssh [of ?out] by simp
qed

lemma filepath_Join_distinct:
  "filepath_Join [home, ''.ssh'', ''authorized_keys''] \<noteq> filepath_Join [home, ''.ssh'']"
proof (cases "home = []")
  case True
  have "filepath_Join [[], ''.ssh'', ''authorized_keys''] \<noteq> filepath_Join [[], ''.ssh'']"
    by code_simp
  with True show ?thesis
    by simp
next
  case False
  then have "filepath_Join [home, ''.ssh'', ''authorized_keys''] =
               filepath_Join [home, ''.ssh''] @ ''/authorized_keys''"
    using filepath_Clean_ssh [OF False] by (simp add: filepath_Join_def)
  then show ?thesis
    by simp
qed

lemma notExist_no_fault:
  "fault w = (\<lambda>c. None) \<Longrightarrow> notExist w name \<longleftrightarrow> fs w name = None"
  by (simp add: notExist_def os_Stat_def split: option.splits)

lemma ensureSSHDir_no_fault:
  assumes "userCurrent w = Inr home" and "fault w = (\<lambda>c. None)"
  shows "ensureSSHDir w =
           (None, if fs w (filepath_Join [home, ''.ssh'']) = None
                  then w\<lparr>fs := (fs w)(filepath_Join [home, ''.ssh''] \<mapsto> Dir mode_0700)\<rparr> else w)"
  using assms
  by (auto simp: ensureSSHDir_def notExist_no_fault os_Mkdir_def)

lemma writeKeys_existing:
  assumes "fault w = (\<lambda>c. None)" and "fs w name = Some (File m old)"
  shows "writeKeys True name block w =
           (None, w\<lparr>fs := (fs w)(name \<mapsto> File m (if old = [] then block else old @ [NL] @ block))\<rparr>)"
  using assms
  by (simp add: writeKeys_def os_OpenFile_def file_Stat_def file_Write_def)

lemma writeKeys_new:
  assumes "fault w = (\<lambda>c. None)" and "fs w name = None"
  shows "writeKeys False name block w = (None, w\<lparr>fs := (fs w)(name \<mapsto> File mode_0600 block)\<rparr>)"
  using assms
  by (simp add: writeKeys_def os_WriteFile_def os_OpenFile_def file_Write_def)

lemma promptConfirmation_frame:
  "userCurrent (snd (promptConfirmation mapLower prompt w)) = userCurrent w"
  "fault (snd (promptConfirmation mapLower prompt w)) = fault w"
  "fs (snd (promptConfirmation mapLower prompt w)) = fs w"
  "stdin (snd (promptConfirmation mapLower prompt w)) = afterReply (stdin w)"
  by (simp_all add: promptConfirmation_def Fprint_def afterReply_def Let_def split: prod.splits option.splits)

lemma Fprint_frame:
  "userCurrent (Fprint w s) = userCurrent w"
  "fault (Fprint w s) = fault w"
  "fs (Fprint w s) = fs w"
  "stdin (Fprint w s) = stdin w"
  by (simp_all add: Fprint_def)

lemma promptConfirmation_accepted:
  "accepts mapLower (stdin w) \<Longrightarrow>
     promptConfirmation mapLower prompt w = (Inr True, snd (promptConfirmation mapLower prompt w))"
  by (simp add: promptConfirmation_accepts)

lemma confirmAdd_accepted:
  assumes "accepts mapLower (stdin w)"
    and "ensureSSHDir (snd (promptConfirmation mapLower ''Do you want to add these keys? (yes/no): ''
           (Fprint w (''Keys to be added:'' @ [NL] @ block @ [NL])))) = (None, w3)"
  shows "confirmAdd mapLower fileExists name block w = writeKeys fileExists name block w3"
proof -
  define w2 where "w2 = snd (promptConfirmation mapLower ''Do you want to add these keys? (yes/no): ''
           (Fprint w (''Keys to be added:'' @ [NL] @ block @ [NL])))"
  have "accepts mapLower (stdin (Fprint w (''Keys to be added:'' @ [NL] @ block @ [NL])))"
    using assms(1) by (simp only: Fprint_frame)
  then have pc: "promptConfirmation mapLower ''Do you want to add these keys? (yes/no): ''
           (Fprint w (''Keys to be added:'' @ [NL] @ block @ [NL])) = (Inr True, w2)"
    unfolding w2_def by (rule promptConfirmation_accepted)
  have e: "ensureSSHDir w2 = (None, w3)"
    using assms(2) unfolding w2_def .
  show ?thesis
    unfolding confirmAdd_def Let_def pc by (simp add: e)
qed

section \<open>The tagger and the matcher\<close>

text \<open>
  Claim C1. \<^verbatim>\<open>removeKeysByUsername\<close> cuts the store at its newlines and at nothing else
  (joining the pieces again gives the store back, so no line is trimmed), keeps exactly the
  lines that do not end in a space followed by the identity, in their order, and joins them
  with newlines. It is a total function of its two arguments. The store
  \<^verbatim>\<open>"keyA user1\nkeyB user2"\<close> filtered for \<^verbatim>\<open>user1\<close> is \<^verbatim>\<open>"keyB user2"\<close>, and a line
  with a space after the identity is kept.
\<close>

theorem removeKeysByUsername_spec:
  "Join (Split keys NL) [NL] = keys
   \<and> removeKeysByUsername keys username =
       Join (filter (\<lambda>line. \<not> suffix ('' '' @ username) line) (Split keys NL)) [NL]
   \<and> removeKeysByUsername (''keyA user1'' @ [NL] @ ''keyB user2'') ''user1'' = ''keyB user2''
   \<and> removeKeysByUsername ''keyA user1 '' ''user1'' = ''keyA user1 ''"
proof -
  have "removeKeysByUsername (''keyA user1'' @ [NL] @ ''keyB user2'') ''user1'' = ''keyB user2''"
    by (simp add: removeKeysByUsername_def HasSuffix_def)
  moreover have "removeKeysByUsername ''keyA user1 '' ''user1'' = ''keyA user1 ''"
    by (simp add: removeKeysByUsername_def HasSuffix_def)
  ultimately show ?thesis
    using Join_Split [of keys NL] removeKeysByUsername_filter [of keys username] by blast
qed

text \<open>
  Claim C2. \<^verbatim>\<open>appendUsernameToKeys\<close> gives the lines of the blob, each one trimmed of the
  white space around it, without the lines that trimming empties, each followed by a space
  and the identity, joined with newlines in their order. (The program trims the whole blob
  before it cuts it into lines; that changes no line of the result.) It is a total function
  of its two arguments, and its result is empty for a blob of white space only, the empty
  blob among them.
\<close>

theorem appendUsernameToKeys_spec:
  "appendUsernameToKeys keys username =
     Join (map (\<lambda>line. line @ '' '' @ username)
            (filter (\<lambda>line. line \<noteq> []) (map TrimSpace (Split keys NL)))) [NL]
   \<and> (whitespace_only keys \<longrightarrow> appendUsernameToKeys keys username = [])"
proof
  show "appendUsernameToKeys keys username =
     Join (map (\<lambda>line. line @ '' '' @ username)
            (filter (\<lambda>line. line \<noteq> []) (map TrimSpace (Split keys NL)))) [NL]"
    using appendUsernameToKeys_lines [of keys username] by (simp only: trimmedLines_def)
next
  show "whitespace_only keys \<longrightarrow> appendUsernameToKeys keys username = []"
  proof
    assume "whitespace_only keys"
    then have "TrimSpace keys = []"
      by (rule whitespace_only_TrimSpace)
    then show "appendUsernameToKeys keys username = []"
      by (simp add: appendUsernameToKeys_def TrimSpace_Nil)
  qed
qed

theorem appendUsernameToKeys_spec_witness:
  "whitespace_only ('' '' @ [NL, CHR 0xC2, CHR 0xA0, NL] @ ''  '')
   \<and> appendUsernameToKeys ('' '' @ [NL, CHR 0xC2, CHR 0xA0, NL] @ ''  '') ''bob'' = []
   \<and> appendUsernameToKeys (''  ssh-rsa K1 '' @ [NL, NL] @ ''ssh-rsa K2'' @ [NL]) ''bob'' =
       ''ssh-rsa K1 bob'' @ [NL] @ ''ssh-rsa K2 bob''"
proof -
  have ws: "whitespace_only ('' '' @ [NL, CHR 0xC2, CHR 0xA0, NL] @ ''  '')"
    by code_simp
  have ex: "appendUsernameToKeys (''  ssh-rsa K1 '' @ [NL, NL] @ ''ssh-rsa K2'' @ [NL]) ''bob'' =
       ''ssh-rsa K1 bob'' @ [NL] @ ''ssh-rsa K2 bob''"
    by code_simp
  from ws ex appendUsernameToKeys_spec [of "'' '' @ [NL, CHR 0xC2, CHR 0xA0, NL] @ ''  ''" "''bob''"]
  show ?thesis
    by blast
qed

text \<open>
  Claim C5. The match is on the whole trailing token: a line of the store that ends in
  \<^verbatim>\<open>" bob"\<close> is still a line of the result of filtering for \<^verbatim>\<open>bobby\<close>, and a line that
  ends in \<^verbatim>\<open>" bobby"\<close> is still a line of the result of filtering for \<^verbatim>\<open>bob\<close>.
\<close>

theorem removeKeysByUsername_exact_token:
  "(line \<in> set (Split keys NL) \<and> HasSuffix line '' bob''
      \<longrightarrow> line \<in> set (Split (removeKeysByUsername keys ''bobby'') NL))
   \<and> (line \<in> set (Split keys NL) \<and> HasSuffix line '' bobby''
      \<longrightarrow> line \<in> set (Split (removeKeysByUsername keys ''bob'') NL))"
proof (intro conjI impI)
  assume a: "line \<in> set (Split keys NL) \<and> HasSuffix line '' bob''"
  then obtain p where "line = p @ '' bob''"
    by (auto simp: HasSuffix_iff_suffix suffix_def)
  then have "\<not> suffix ('' '' @ ''bobby'') line"
    by (auto simp: suffix_def append_eq_append_conv2 Cons_eq_append_conv)
  with a show "line \<in> set (Split (removeKeysByUsername keys ''bobby'') NL)"
    unfolding removeKeysByUsername_lines by auto
next
  assume a: "line \<in> set (Split keys NL) \<and> HasSuffix line '' bobby''"
  then obtain p where "line = p @ '' bobby''"
    by (auto simp: HasSuffix_iff_suffix suffix_def)
  then have "\<not> suffix ('' '' @ ''bob'') line"
    by (auto simp: suffix_def append_eq_append_conv2 Cons_eq_append_conv)
  with a show "line \<in> set (Split (removeKeysByUsername keys ''bob'') NL)"
    unfolding removeKeysByUsername_lines by auto
qed

theorem removeKeysByUsername_exact_token_witness:
  "(''k1 bob'' \<in> set (Split (''k1 bob'' @ [NL] @ ''k2 bobby'') NL) \<and> HasSuffix ''k1 bob'' '' bob'')
   \<and> ''k1 bob'' \<in> set (Split (removeKeysByUsername (''k1 bob'' @ [NL] @ ''k2 bobby'') ''bobby'') NL)
   \<and> removeKeysByUsername (''k1 bob'' @ [NL] @ ''k2 bobby'') ''bobby'' = ''k1 bob''
   \<and> (''k2 bobby'' \<in> set (Split (''k1 bob'' @ [NL] @ ''k2 bobby'') NL)
        \<and> HasSuffix ''k2 bobby'' '' bobby'')
   \<and> ''k2 bobby'' \<in> set (Split (removeKeysByUsername (''k1 bob'' @ [NL] @ ''k2 bobby'') ''bob'') NL)
   \<and> removeKeysByUsername (''k1 bob'' @ [NL] @ ''k2 bobby'') ''bob'' = ''k2 bobby''"
proof -
  have h1: "''k1 bob'' \<in> set (Split (''k1 bob'' @ [NL] @ ''k2 bobby'') NL) \<and> HasSuffix ''k1 bob'' '' bob''"
    by (simp add: HasSuffix_def)
  have h2: "''k2 bobby'' \<in> set (Split (''k1 bob'' @ [NL] @ ''k2 bobby'') NL)
              \<and> HasSuffix ''k2 bobby'' '' bobby''"
    by (simp add: HasSuffix_def)
  have r1: "removeKeysByUsername (''k1 bob'' @ [NL] @ ''k2 bobby'') ''bobby'' = ''k1 bob''"
    by (simp add: removeKeysByUsername_def HasSuffix_def)
  have r2: "removeKeysByUsername (''k1 bob'' @ [NL] @ ''k2 bobby'') ''bob'' = ''k2 bobby''"
    by (simp add: removeKeysByUsername_def HasSuffix_def)
  from h1 h2 r1 r2
    removeKeysByUsername_exact_token [of "''k1 bob''" "''k1 bob'' @ [NL] @ ''k2 bobby''"]
    removeKeysByUsername_exact_token [of "''k2 bobby''" "''k1 bob'' @ [NL] @ ''k2 bobby''"]
  show ?thesis
    by blast
qed

text \<open>
  Claim C8. Filtering is idempotent: filtering the result of a filtering again, for the same
  identity, changes nothing.
\<close>

theorem removeKeysByUsername_idempotent:
  "removeKeysByUsername (removeKeysByUsername keys username) username =
     removeKeysByUsername keys username"
proof -
  let ?P = "\<lambda>line. \<not> suffix ('' '' @ username) line"
  have "removeKeysByUsername (removeKeysByUsername keys username) username =
          Join (filter ?P (Split (removeKeysByUsername keys username) NL)) [NL]"
    by (rule removeKeysByUsername_filter)
  also have "\<dots> = Join (filter ?P (Split keys NL)) [NL]"
    by (simp add: removeKeysByUsername_lines)
  also have "\<dots> = removeKeysByUsername keys username"
    by (simp add: removeKeysByUsername_filter)
  finally show ?thesis .
qed

section \<open>The prompt\<close>

text \<open>
  Claim C9. When a line comes from standard input, \<^verbatim>\<open>promptConfirmation\<close> returns no
  error, and returns true exactly when the line, trimmed of the white space around it and
  put in lower case, is the word \<^verbatim>\<open>yes\<close>; for a line of ASCII bytes that is: when the
  trimmed line is \<^verbatim>\<open>yes\<close> in one of its eight spellings in upper and lower case. It
  returns an error exactly when the stream fails (reports an error other than the end of
  the input) before a newline has come.
\<close>

theorem promptConfirmation_yes:
  "(NL \<notin> set l \<and> pending (stdin w) = l @ NL # rest \<longrightarrow>
      fst (promptConfirmation mapLower prompt w) = Inr (ToLower mapLower (TrimSpace l) = ''yes''))
   \<and> ((\<exists>e. fst (promptConfirmation mapLower prompt w) = Inl e) \<longleftrightarrow>
        NL \<notin> set (pending (stdin w)) \<and> ending (stdin w) \<noteq> EOF)
   \<and> (list_all (\<lambda>c. of_char c < (0x80::nat)) l \<longrightarrow>
        (ToLower mapLower (TrimSpace l) = ''yes'' \<longleftrightarrow>
           TrimSpace l \<in> set [''yes'', ''yeS'', ''yEs'', ''yES'', ''Yes'', ''YeS'', ''YEs'', ''YES'']))"
proof (intro conjI impI)
  assume a: "NL \<notin> set l \<and> pending (stdin w) = l @ NL # rest"
  then have "ReadString (stdin w) NL = ((l @ [NL], None), (stdin w)\<lparr>pending := rest\<rparr>)"
    by (simp add: ReadString_line)
  then have "fst (promptConfirmation mapLower prompt w) =
               Inr (ToLower mapLower (TrimSpace (l @ [NL])) = ''yes'')"
    by (simp add: promptConfirmation_ReadString)
  moreover have "TrimSpace (l @ [NL]) = TrimSpace l"
    by (rule TrimSpace_append_rune) (simp add: spaceRunes_def)
  ultimately show "fst (promptConfirmation mapLower prompt w) =
                     Inr (ToLower mapLower (TrimSpace l) = ''yes'')"
    by simp
next
  obtain line err b where r: "ReadString (stdin w) NL = ((line, err), b)"
    by (metis surj_pair)
  then show "(\<exists>e. fst (promptConfirmation mapLower prompt w) = Inl e) \<longleftrightarrow>
               NL \<notin> set (pending (stdin w)) \<and> ending (stdin w) \<noteq> EOF"
    by (auto simp: promptConfirmation_ReadString [OF r] ReadString_def split: if_splits option.splits)
next
  assume "list_all (\<lambda>c. of_char c < (0x80::nat)) l"
  with set_TrimSpace [of l] have "list_all (\<lambda>c. of_char c < (0x80::nat)) (TrimSpace l)"
    by (auto simp: list_all_iff)
  then show "ToLower mapLower (TrimSpace l) = ''yes'' \<longleftrightarrow>
          TrimSpace l \<in> set [''yes'', ''yeS'', ''yEs'', ''yES'', ''Yes'', ''YeS'', ''YEs'', ''YES'']"
    by (rule ToLower_ascii_yes)
qed

theorem promptConfirmation_yes_witness:
  "(NL \<notin> set '' YeS '' \<and>
      pending (stdin (demo\<lparr>stdin := \<lparr>pending = '' YeS '' @ [NL] @ ''more'', ending = EOF\<rparr>\<rparr>)) =
        '' YeS '' @ NL # ''more'')
   \<and> fst (promptConfirmation id ''? ''
              (demo\<lparr>stdin := \<lparr>pending = '' YeS '' @ [NL] @ ''more'', ending = EOF\<rparr>\<rparr>)) = Inr True
   \<and> list_all (\<lambda>c. of_char c < (0x80::nat)) '' YeS ''
   \<and> TrimSpace '' YeS '' \<in> set [''yes'', ''yeS'', ''yEs'', ''yES'', ''Yes'', ''YeS'', ''YEs'', ''YES'']"
proof -
  let ?w = "demo\<lparr>stdin := \<lparr>pending = '' YeS '' @ [NL] @ ''more'', ending = EOF\<rparr>\<rparr>"
  have h: "NL \<notin> set '' YeS '' \<and> pending (stdin ?w) = '' YeS '' @ NL # ''more''"
    by simp
  have a: "list_all (\<lambda>c. of_char c < (0x80::nat)) '' YeS ''"
    by simp
  have y: "ToLower id (TrimSpace '' YeS '') = ''yes''"
    by code_simp
  from h a y promptConfirmation_yes [where l = "'' YeS ''" and w = ?w and rest = "''more''"
      and mapLower = id and prompt = "''? ''"]
  show ?thesis
    by simp
qed

text \<open>
  Claim C10. When standard input ends (\<^verbatim>\<open>io.EOF\<close>) before a newline has come, and also
  when it is empty, \<^verbatim>\<open>promptConfirmation\<close> returns no error: it returns true exactly when
  the bytes read before the end, trimmed and put in lower case, are the word \<^verbatim>\<open>yes\<close>,
  and false for the empty input.
\<close>

theorem promptConfirmation_end_of_input:
  assumes "NL \<notin> set (pending (stdin w))" and "ending (stdin w) = EOF"
  shows "fst (promptConfirmation mapLower prompt w) =
           Inr (ToLower mapLower (TrimSpace (pending (stdin w))) = ''yes'')
         \<and> (pending (stdin w) = [] \<longrightarrow> fst (promptConfirmation mapLower prompt w) = Inr False)"
proof -
  from assms have "ReadString (stdin w) NL =
      ((pending (stdin w), Some EOF), (stdin w)\<lparr>pending := []\<rparr>)"
    by (simp add: ReadString_end)
  then have "fst (promptConfirmation mapLower prompt w) =
           Inr (ToLower mapLower (TrimSpace (pending (stdin w))) = ''yes'')"
    by (simp add: promptConfirmation_ReadString)
  then show ?thesis
    by (simp add: TrimSpace_Nil ToLower_Nil)
qed

theorem promptConfirmation_end_of_input_witness:
  "NL \<notin> set (pending (stdin (demo\<lparr>stdin := \<lparr>pending = ''yes'', ending = EOF\<rparr>\<rparr>)))
   \<and> ending (stdin (demo\<lparr>stdin := \<lparr>pending = ''yes'', ending = EOF\<rparr>\<rparr>)) = EOF
   \<and> fst (promptConfirmation id ''? '' (demo\<lparr>stdin := \<lparr>pending = ''yes'', ending = EOF\<rparr>\<rparr>)) =
       Inr True
   \<and> fst (promptConfirmation id ''? '' (demo\<lparr>stdin := \<lparr>pending = [], ending = EOF\<rparr>\<rparr>)) =
       Inr False"
proof -
  let ?w = "demo\<lparr>stdin := \<lparr>pending = ''yes'', ending = EOF\<rparr>\<rparr>"
  let ?v = "demo\<lparr>stdin := \<lparr>pending = [], ending = EOF\<rparr>\<rparr>"
  have h: "NL \<notin> set (pending (stdin ?w))" "ending (stdin ?w) = EOF"
    by simp_all
  have g: "NL \<notin> set (pending (stdin ?v))" "ending (stdin ?v) = EOF" "pending (stdin ?v) = []"
    by simp_all
  have y: "ToLower id (TrimSpace ''yes'') = ''yes''"
    by code_simp
  from h g y promptConfirmation_end_of_input [OF h, of id "''? ''"]
    promptConfirmation_end_of_input [OF g(1,2), of id "''? ''"]
  show ?thesis
    by (simp add: TrimSpace_Nil ToLower_Nil)
qed

section \<open>The reconciler\<close>

text \<open>
  Claim C3. When no system call fails and the operator answers yes, \<^verbatim>\<open>confirmAndAddKeys\<close>
  returns no error, and: a credential file that exists keeps its permission bits and its
  bytes, which are a prefix of the new content, and gets a newline and the tagged block
  after them, or the tagged block alone when the file was empty; a credential file that
  does not exist (the operator answers yes twice) is made with the permission bits
  \<^verbatim>\<open>0600\<close> and the tagged block as its content. The rest of the file system is
  as before, but for the directory \<^verbatim>\<open>.ssh\<close>, which is made when it is missing.
\<close>

theorem confirmAndAddKeys_writes:
  assumes "userCurrent w = Inr home"
    and "path = filepath_Join [home, ''.ssh'', ''authorized_keys'']"
    and "sshDir = filepath_Join [home, ''.ssh'']"
    and "fault w = (\<lambda>c. None)"
    and "block = appendUsernameToKeys keys username"
    and "ensured = (if fs w sshDir = None then (fs w)(sshDir \<mapsto> Dir mode_0700) else fs w)"
  shows "(fs w path = Some (File m old) \<and> accepts mapLower (stdin w) \<longrightarrow>
            fst (confirmAndAddKeys mapLower keys username w) = None
            \<and> fs (snd (confirmAndAddKeys mapLower keys username w)) =
                ensured(path \<mapsto> File m (if old = [] then block else old @ [NL] @ block))
            \<and> prefix old (if old = [] then block else old @ [NL] @ block))
       \<and> (fs w path = None \<and> accepts mapLower (stdin w)
             \<and> accepts mapLower (afterReply (stdin w)) \<longrightarrow>
            fst (confirmAndAddKeys mapLower keys username w) = None
            \<and> fs (snd (confirmAndAddKeys mapLower keys username w)) =
                ensured(path \<mapsto> File mode_0600 block))"
proof -
  have ne: "path \<noteq> sshDir"
    using assms(2,3) filepath_Join_distinct by simp
  have gp: "getAuthorizedKeysPath w = Inr path"
    using assms(1,2) by (simp add: getAuthorizedKeysPath_def)
  have after: "ensureSSHDir w2 = (None, w2\<lparr>fs := ensured\<rparr>)"
    if "userCurrent w2 = Inr home" "fault w2 = (\<lambda>c. None)" "fs w2 = fs w" for w2
    using ensureSSHDir_no_fault [OF that(1,2)] that(3) assms(3,6) by simp
  have existing: "fst (confirmAndAddKeys mapLower keys username w) = None
      \<and> fs (snd (confirmAndAddKeys mapLower keys username w)) =
          ensured(path \<mapsto> File m (if old = [] then block else old @ [NL] @ block))"
    if a: "fs w path = Some (File m old)" "accepts mapLower (stdin w)"
  proof -
    define w2 where "w2 = snd (promptConfirmation mapLower ''Do you want to add these keys? (yes/no): ''
           (Fprint w (''Keys to be added:'' @ [NL] @ block @ [NL])))"
    have w2: "userCurrent w2 = Inr home" "fault w2 = (\<lambda>c. None)" "fs w2 = fs w"
      using assms(1,4) by (simp_all add: w2_def promptConfirmation_frame Fprint_frame)
    have e: "ensureSSHDir w2 = (None, w2\<lparr>fs := ensured\<rparr>)"
      using w2 by (rule after)
    have "\<not> notExist w path"
      using a(1) assms(4) by (simp add: notExist_no_fault)
    then have "confirmAndAddKeys mapLower keys username w = confirmAdd mapLower True path block w"
      using gp assms(5) by (simp add: confirmAndAddKeys_def)
    also have "\<dots> = writeKeys True path block (w2\<lparr>fs := ensured\<rparr>)"
      using a(2) e unfolding w2_def by (rule confirmAdd_accepted)
    also have "\<dots> = (None, w2\<lparr>fs := ensured(path \<mapsto>
                          File m (if old = [] then block else old @ [NL] @ block))\<rparr>)"
      using w2(2) a(1) ne assms(6) by (simp add: writeKeys_existing)
    finally show ?thesis
      by simp
  qed
  have new: "fst (confirmAndAddKeys mapLower keys username w) = None
      \<and> fs (snd (confirmAndAddKeys mapLower keys username w)) = ensured(path \<mapsto> File mode_0600 block)"
    if a: "fs w path = None" "accepts mapLower (stdin w)" "accepts mapLower (afterReply (stdin w))"
  proof -
    define w1 where "w1 = snd (promptConfirmation mapLower
      ''The authorized_keys file does not exist. Do you want to create it? (yes/no): '' w)"
    define w2 where "w2 = snd (promptConfirmation mapLower ''Do you want to add these keys? (yes/no): ''
           (Fprint w1 (''Keys to be added:'' @ [NL] @ block @ [NL])))"
    have w1: "userCurrent w1 = Inr home" "fault w1 = (\<lambda>c. None)" "fs w1 = fs w"
      "stdin w1 = afterReply (stdin w)"
      using assms(1,4) by (simp_all add: w1_def promptConfirmation_frame)
    have w2: "userCurrent w2 = Inr home" "fault w2 = (\<lambda>c. None)" "fs w2 = fs w"
      using w1 by (simp_all add: w2_def promptConfirmation_frame Fprint_frame)
    have e: "ensureSSHDir w2 = (None, w2\<lparr>fs := ensured\<rparr>)"
      using w2 by (rule after)
    have "notExist w path"
      using a(1) assms(4) by (simp add: notExist_no_fault)
    moreover have "promptConfirmation mapLower
      ''The authorized_keys file does not exist. Do you want to create it? (yes/no): '' w = (Inr True, w1)"
      unfolding w1_def using a(2) by (rule promptConfirmation_accepted)
    ultimately have "confirmAndAddKeys mapLower keys username w = confirmAdd mapLower False path block w1"
      using gp assms(5) by (simp add: confirmAndAddKeys_def)
    also have "\<dots> = writeKeys False path block (w2\<lparr>fs := ensured\<rparr>)"
    proof (rule confirmAdd_accepted)
      show "accepts mapLower (stdin w1)"
        using a(3) w1(4) by simp
      show "ensureSSHDir (snd (promptConfirmation mapLower ''Do you want to add these keys? (yes/no): ''
           (Fprint w1 (''Keys to be added:'' @ [NL] @ block @ [NL])))) = (None, w2\<lparr>fs := ensured\<rparr>)"
        using e unfolding w2_def .
    qed
    also have "\<dots> = (None, w2\<lparr>fs := ensured(path \<mapsto> File mode_0600 block)\<rparr>)"
      using w2(2) a(1) ne assms(6) by (simp add: writeKeys_new)
    finally show ?thesis
      by simp
  qed
  from existing new show ?thesis
    by simp
qed

theorem confirmAndAddKeys_writes_witness:
  "fs (snd (confirmAndAddKeys id ''ssh-rsa K1'' ''bob''
         (demo_store\<lparr>stdin := \<lparr>pending = ''yes'' @ [NL], ending = EOF\<rparr>\<rparr>)))
      ''/home/u/.ssh/authorized_keys'' =
     Some (File mode_0600 (''ssh-rsa K0 alice'' @ [NL] @ ''ssh-rsa K1 bob''))
   \<and> fs (snd (confirmAndAddKeys id ''ssh-rsa K1'' ''bob''
         (demo\<lparr>stdin := \<lparr>pending = ''yes'' @ [NL] @ ''YES'', ending = EOF\<rparr>\<rparr>)))
      ''/home/u/.ssh/authorized_keys'' =
     Some (File mode_0600 ''ssh-rsa K1 bob'')
   \<and> fs (snd (confirmAndAddKeys id ''ssh-rsa K1'' ''bob''
         (demo\<lparr>stdin := \<lparr>pending = ''yes'' @ [NL] @ ''YES'', ending = EOF\<rparr>\<rparr>)))
      ''/home/u/.ssh'' = Some (Dir mode_0700)"
proof -
  let ?w = "demo_store\<lparr>stdin := \<lparr>pending = ''yes'' @ [NL], ending = EOF\<rparr>\<rparr>"
  let ?v = "demo\<lparr>stdin := \<lparr>pending = ''yes'' @ [NL] @ ''YES'', ending = EOF\<rparr>\<rparr>"
  let ?path = "filepath_Join [''/home/u'', ''.ssh'', ''authorized_keys'']"
  let ?dir = "filepath_Join [''/home/u'', ''.ssh'']"
  let ?block = "appendUsernameToKeys ''ssh-rsa K1'' ''bob''"
  have p: "?path = ''/home/u/.ssh/authorized_keys''" and d: "?dir = ''/home/u/.ssh''"
    by code_simp+
  have b: "?block = ''ssh-rsa K1 bob''"
    by code_simp
  have w: "userCurrent ?w = Inr ''/home/u''" "fault ?w = (\<lambda>c. None)"
    "fs ?w ?path = Some (File mode_0600 ''ssh-rsa K0 alice'') \<and> accepts id (stdin ?w)"
    "fs ?w ?dir = Some (Dir mode_0700)"
    by (simp_all add: demo_store_def demo_def p d) code_simp
  have v: "userCurrent ?v = Inr ''/home/u''" "fault ?v = (\<lambda>c. None)"
    "fs ?v ?path = None \<and> accepts id (stdin ?v) \<and> accepts id (afterReply (stdin ?v))"
    "fs ?v ?dir = None"
    by (simp_all add: demo_def) code_simp
  from w(3,4) p d b
    confirmAndAddKeys_writes [OF w(1) refl refl w(2) refl refl,
      where mapLower = id and keys = "''ssh-rsa K1''" and username = "''bob''"
        and m = mode_0600 and old = "''ssh-rsa K0 alice''"]
  have "fs (snd (confirmAndAddKeys id ''ssh-rsa K1'' ''bob'' ?w)) ''/home/u/.ssh/authorized_keys'' =
     Some (File mode_0600 (''ssh-rsa K0 alice'' @ [NL] @ ''ssh-rsa K1 bob''))"
    by simp
  moreover from v(3,4) p d b
    confirmAndAddKeys_writes [OF v(1) refl refl v(2) refl refl,
      where mapLower = id and keys = "''ssh-rsa K1''" and username = "''bob''"]
  have "fs (snd (confirmAndAddKeys id ''ssh-rsa K1'' ''bob'' ?v)) ''/home/u/.ssh/authorized_keys'' =
     Some (File mode_0600 ''ssh-rsa K1 bob'')
     \<and> fs (snd (confirmAndAddKeys id ''ssh-rsa K1'' ''bob'' ?v)) ''/home/u/.ssh'' = Some (Dir mode_0700)"
    by simp
  ultimately show ?thesis
    by simp
qed

text \<open>
  Claim C4. When the operator declines a prompt (the prompt to create the file, the prompt
  to add, with or without the first one before it, or the prompt to remove),
  \<^verbatim>\<open>confirmAndAddKeys\<close> and \<^verbatim>\<open>confirmAndRemoveKeys\<close> return no error and leave the file
  system as it was: no file and no directory is made, written or truncated. The last
  thing they print is \<^verbatim>\<open>Operation aborted.\<close>
\<close>

theorem decline_is_no_op:
  assumes "userCurrent w = Inr home"
    and "path = filepath_Join [home, ''.ssh'', ''authorized_keys'']"
  shows "((notExist w path \<and> declines mapLower (stdin w))
          \<or> (notExist w path \<and> accepts mapLower (stdin w)
               \<and> declines mapLower (afterReply (stdin w)))
          \<or> (\<not> notExist w path \<and> declines mapLower (stdin w))
         \<longrightarrow> fst (confirmAndAddKeys mapLower keys username w) = None
             \<and> fs (snd (confirmAndAddKeys mapLower keys username w)) = fs w
             \<and> suffix (''Operation aborted.'' @ [NL])
                  (stdout (snd (confirmAndAddKeys mapLower keys username w))))
       \<and> (\<not> notExist w path \<and> declines mapLower (stdin w)
         \<longrightarrow> fst (confirmAndRemoveKeys mapLower keys username w) = None
             \<and> fs (snd (confirmAndRemoveKeys mapLower keys username w)) = fs w
             \<and> suffix (''Operation aborted.'' @ [NL])
                  (stdout (snd (confirmAndRemoveKeys mapLower keys username w))))"
  using assms
  by (auto simp: confirmAndAddKeys_def confirmAndRemoveKeys_def confirmAdd_def
      getAuthorizedKeysPath_def promptConfirmation_declines promptConfirmation_accepts
      Fprintln_def Fprint_def suffix_def)

theorem decline_is_no_op_witness:
  "userCurrent demo = Inr ''/home/u''
   \<and> notExist demo (filepath_Join [''/home/u'', ''.ssh'', ''authorized_keys''])
   \<and> declines id (stdin demo)
   \<and> fst (confirmAndAddKeys id ''ssh-rsa K1'' ''bob'' demo) = None
   \<and> fs (snd (confirmAndAddKeys id ''ssh-rsa K1'' ''bob'' demo)) = fs demo
   \<and> userCurrent demo_store = Inr ''/home/u''
   \<and> \<not> notExist demo_store (filepath_Join [''/home/u'', ''.ssh'', ''authorized_keys''])
   \<and> declines id (stdin demo_store)
   \<and> fst (confirmAndRemoveKeys id ''ssh-rsa K0'' ''alice'' demo_store) = None
   \<and> fs (snd (confirmAndRemoveKeys id ''ssh-rsa K0'' ''alice'' demo_store)) = fs demo_store"
proof -
  let ?path = "filepath_Join [''/home/u'', ''.ssh'', ''authorized_keys'']"
  have u: "userCurrent demo = Inr ''/home/u''" "userCurrent demo_store = Inr ''/home/u''"
    by (simp_all add: demo_store_def demo_def)
  have n: "notExist demo ?path" "\<not> notExist demo_store ?path"
    by code_simp+
  have d: "declines id (stdin demo)" "declines id (stdin demo_store)"
    by code_simp+
  from u n d
    decline_is_no_op [OF u(1) refl, of id "''ssh-rsa K1''" "''bob''"]
    decline_is_no_op [OF u(2) refl, of id "''ssh-rsa K0''" "''alice''"]
  show ?thesis
    by blast
qed

text \<open>
  Claim C6. When the key server answers with a blob of white space only (blank lines, or
  nothing at all), \<^verbatim>\<open>run\<close> returns the error
  \<^verbatim>\<open>no public keys found for user '...'\<close> whatever the action is, and the world is as it
  was: nothing has been printed, no answer has been read and the file system has not
  been touched.
\<close>

theorem run_no_public_keys:
  assumes "fetchKeys w (''https://github.com/'' @ username @ ''.keys'') = Inr keys"
    and "whitespace_only keys"
  shows "run mapLower [prog, action, username] w =
           (Some (Errorf (''no public keys found for user '' @ [CHR 0x27] @ username @ [CHR 0x27])), w)"
  using assms
  by (simp add: run_def whitespace_only_TrimSpace)

theorem run_no_public_keys_witness:
  "fetchKeys demo (''https://github.com/'' @ ''bob'' @ ''.keys'') = Inr ('' '' @ [NL, NL] @ ''  '')
   \<and> whitespace_only ('' '' @ [NL, NL] @ ''  '')
   \<and> run id [''doorman'', ''add'', ''bob''] demo =
       (Some (Errorf (''no public keys found for user '' @ [CHR 0x27] @ ''bob'' @ [CHR 0x27])), demo)
   \<and> run id [''doorman'', ''remove'', ''bob''] demo =
       (Some (Errorf (''no public keys found for user '' @ [CHR 0x27] @ ''bob'' @ [CHR 0x27])), demo)"
proof -
  have f: "fetchKeys demo (''https://github.com/'' @ ''bob'' @ ''.keys'') = Inr ('' '' @ [NL, NL] @ ''  '')"
    by code_simp
  have ws: "whitespace_only ('' '' @ [NL, NL] @ ''  '')"
    by code_simp
  from f ws run_no_public_keys [OF f ws, of id "''doorman''" "''add''"]
    run_no_public_keys [OF f ws, of id "''doorman''" "''remove''"]
  show ?thesis
    by blast
qed

text \<open>
  Claim C7, as the program has it. When the credential file does not exist and
  \<^verbatim>\<open>os.Stat\<close> reports that (it fails with no other error), \<^verbatim>\<open>confirmAndRemoveKeys\<close>
  returns no error and prints that the file does not exist; nothing else of the world
  changes: no answer is read from standard input, and no file is made.
\<close>

theorem confirmAndRemoveKeys_no_file:
  assumes "userCurrent w = Inr home"
    and "path = filepath_Join [home, ''.ssh'', ''authorized_keys'']"
    and "fs w path = None"
    and "fault w (SysStat path) = None \<or> fault w (SysStat path) = Some ENOENT"
  shows "confirmAndRemoveKeys mapLower keys username w =
           (None, w\<lparr>stdout := stdout w @ ''The authorized_keys file does not exist.'' @ [NL]\<rparr>)"
proof -
  from assms(3,4) have "notExist w path"
    by (auto simp: notExist_def os_Stat_def)
  with assms(1,2) show ?thesis
    by (simp add: confirmAndRemoveKeys_def getAuthorizedKeysPath_def Fprintln_def)
qed

theorem confirmAndRemoveKeys_no_file_witness:
  "userCurrent demo = Inr ''/home/u''
   \<and> fs demo (filepath_Join [''/home/u'', ''.ssh'', ''authorized_keys'']) = None
   \<and> fault demo (SysStat (filepath_Join [''/home/u'', ''.ssh'', ''authorized_keys''])) = None
   \<and> confirmAndRemoveKeys id ''ssh-rsa K1'' ''bob'' demo =
       (None, demo\<lparr>stdout := ''The authorized_keys file does not exist.'' @ [NL]\<rparr>)"
proof -
  let ?path = "filepath_Join [''/home/u'', ''.ssh'', ''authorized_keys'']"
  have u: "userCurrent demo = Inr ''/home/u''"
    by (simp add: demo_def)
  have n: "fs demo ?path = None"
    by (simp add: demo_def)
  have f: "fault demo (SysStat ?path) = None"
    by (simp add: demo_def)
  have o: "stdout demo = []"
    by (simp add: demo_def)
  from f have "fault demo (SysStat ?path) = None \<or> fault demo (SysStat ?path) = Some ENOENT"
    by simp
  from u n f o confirmAndRemoveKeys_no_file [OF u refl n this, of id "''ssh-rsa K1''" "''bob''"]
  show ?thesis
    by simp
qed

text \<open>
  The claim as it was written, for every case where the credential file does not exist,
  fails: in \<^verbatim>\<open>demo_blocked\<close> there is no credential file, \<^verbatim>\<open>os.Stat\<close> fails with
  \<^verbatim>\<open>ENOTDIR\<close>, which \<^verbatim>\<open>os.IsNotExist\<close> does not take for a missing file, and
  \<^verbatim>\<open>confirmAndRemoveKeys\<close> asks, reads the answer and returns the error of the read.
\<close>

theorem confirmAndRemoveKeys_no_file_counterexample:
  "filepath_Join [''/home/u'', ''.ssh'', ''authorized_keys''] = ''/home/u/.ssh/authorized_keys''
   \<and> userCurrent demo_blocked = Inr ''/home/u''
   \<and> fs demo_blocked ''/home/u/.ssh/authorized_keys'' = None
   \<and> fst (confirmAndRemoveKeys id ''ssh-rsa K1'' ''bob'' demo_blocked) =
       Some (PathError ''open'' ''/home/u/.ssh/authorized_keys'' ENOTDIR)
   \<and> pending (stdin demo_blocked) = ''yes'' @ [NL]
   \<and> pending (stdin (snd (confirmAndRemoveKeys id ''ssh-rsa K1'' ''bob'' demo_blocked))) = []"
  by code_simp

end
